theory Spec2Isabelle
  imports Complex_Main
begin

section \<open>The session control loop of \<open>Session 10/agent/agent_loop3.py\<close>\<close>

text \<open>
  The theory embeds \<open>AgentLoop\<close> of \<open>agent_loop3.py\<close>: \<open>run\<close>, \<open>run_perception\<close>,
  \<open>handle_perception_completion\<close>, \<open>make_initial_decision\<close>, \<open>create_step\<close>,
  \<open>execute_step\<close>, \<open>evaluate_step\<close>, \<open>get_next_step\<close>, \<open>replan_after_failure\<close>,
  \<open>run_mid_session_decision\<close> and \<open>append_new_plan_version\<close>.

  Conventions.
  \<^item> A Python dictionary produced by a collaborator is a record whose fields are
    options: \<open>None\<close> is an absent key, \<open>d["k"]\<close> on an absent key is the error
    \<open>KeyError\<close>, \<open>d.get("k", v)\<close> is the default \<open>v\<close>. A present key holds a value of
    the type the interface of the collaborator gives it.
  \<^item> The collaborators (memory search, perception, decision, executor) are parameters.
    Each is a function of the calls made so far and of its input, so that a
    collaborator may answer the same input differently at different times.
  \<^item> Every call of a collaborator and every entry into \<open>execute_step\<close> (where the
    source prints the step) is appended to a trace.
  \<^item> Mutation is explicit state passing over a \<open>world\<close>: the session, the
    failure-memory list \<open>session_memory\<close> of \<open>run\<close>, and the trace. A function that
    can raise returns the error together with the world at the moment of the raise.
  \<^item> A \<open>Step\<close> object is shared between the loop variable \<open>step\<close> and the plan
    version that stores it; the loop variable is a reference (plan version position,
    step position) into the session.
  \<^item> The \<open>while\<close> loop has no bound in the source; the model takes fuel, one unit
    per call of \<open>execute_step\<close>, and reports \<open>OutOfFuel\<close> when it is used up.
  \<^item> Console output and \<open>live_update_session\<close> (a notification whose result the loop
    never reads) are left out.
  \<^item> Objects of the classes \<open>Step\<close> and \<open>PerceptionSnapshot\<close> are true in a condition
    (\<open>while step\<close>, \<open>not step.perception\<close>); \<open>Step.to_dict\<close> hands the step to the
    decision component as it is; a text is a list of characters, one per character of
    the Python string, so that \<open>[:300]\<close> is \<open>take 300\<close>.
\<close>

subsection \<open>Data\<close>

datatype error = KeyError string | AttributeError string | IndexError | TypeError string

text \<open>The dictionary returned by \<open>perception.run\<close>.\<close>

record perception_result =
  pr_original_goal_achieved :: "bool option"
  pr_local_goal_achieved :: "bool option"
  pr_confidence :: "real option"
  pr_reasoning :: "string option"
  pr_solution_summary :: "string option"

text \<open>
  Modelled from the spec: class \<open>PerceptionSnapshot\<close> of \<open>agent/agentSession.py\<close>, which
  is not among the sources. The spec gives it the fields \<open>original_goal_achieved\<close>,
  \<open>local_goal_achieved\<close>, \<open>confidence\<close>, \<open>reasoning\<close> and the summary, and says that the
  perception response "must always return all required fields or the loop cannot
  construct a valid snapshot".
\<close>

record perception_snapshot =
  original_goal_achieved :: bool
  local_goal_achieved :: bool
  confidence :: real
  reasoning :: string
  solution_summary :: string

definition PerceptionSnapshot :: "perception_result \<Rightarrow> error + perception_snapshot" where
  "PerceptionSnapshot d =
     (case (pr_original_goal_achieved d, pr_local_goal_achieved d, pr_confidence d,
            pr_reasoning d, pr_solution_summary d) of
        (Some og, Some lg, Some c, Some r, Some s) \<Rightarrow>
          Inr \<lparr>original_goal_achieved = og, local_goal_achieved = lg, confidence = c,
               reasoning = r, solution_summary = s\<rparr>
      | _ \<Rightarrow> Inl (TypeError ''PerceptionSnapshot''))"

text \<open>The dictionary returned by \<open>decision.run\<close>.\<close>

record decision_output =
  do_step_index :: "int option"
  do_description :: "string option"
  do_type :: "string option"
  do_code :: "string option"
  do_conclusion :: "string option"
  do_plan_text :: "string list option"

text \<open>
  The response of \<open>run_user_code\<close>: the value under the key \<open>result\<close> when there is
  one, and the text Python's \<open>str\<close> gives for the whole response.
\<close>

record executor_response =
  er_result :: "string option"
  er_str :: string

record tool_code =
  tool_name :: string
  tool_arguments :: "(string \<times> string) list"

datatype execution_value = Response executor_response | Text string

text \<open>
  Modelled from the spec: class \<open>Step\<close> of \<open>agent/agentSession.py\<close>. Its constructor
  takes index, description, type, code and conclusion; the spec gives the other fields
  and their initial values: "execution result (initially unset), status
  (pending, then completed or clarification_needed), optional attached
  PerceptionSnapshot".
\<close>

record step =
  index :: int
  description :: string
  type :: string
  code :: "tool_code option"
  conclusion :: "string option"
  execution_result :: "execution_value option"
  status :: string
  perception :: "perception_snapshot option"

definition Step :: "int \<Rightarrow> string \<Rightarrow> string \<Rightarrow> tool_code option \<Rightarrow> string option \<Rightarrow> step" where
  "Step i d t c cn =
     \<lparr>index = i, description = d, type = t, code = c, conclusion = cn,
      execution_result = None, status = ''pending'', perception = None\<rparr>"

record plan_version =
  plan_text :: "string list"
  steps :: "step list"

record session_state =
  st_original_goal_achieved :: bool
  final_answer :: "string option"
  st_confidence :: "real option"
  reasoning_note :: "string option"
  st_solution_summary :: "string option"

record agent_session =
  session_id :: string
  original_query :: string
  session_perception :: "perception_snapshot option"
  plan_versions :: "plan_version list"
  state :: session_state

text \<open>
  An entry of the memory handed to perception: a result of the memory search (with a
  file name) or a failure record built by \<open>execute_step\<close> (without).
\<close>

record memory_entry =
  me_file :: "string option"
  me_query :: string
  me_result_requirement :: string
  me_solution_summary :: string

record perception_input =
  raw_input :: "string option"
  memory :: "memory_entry list"
  current_plan :: "string list option"
  snapshot_type :: string

datatype decision_input =
  Initial (planning_strategy: string) (di_original_query: string) (di_perception: perception_result)
| Mid_Session (planning_strategy: string) (di_original_query: string)
    (current_plan_version: nat) (di_current_plan: "string list")
    (completed_steps: "step list") (current_step: step) (step_failed: bool)

datatype event =
  is_Search_Memory: Search_Memory string
| is_Run_Perception: Run_Perception (the_input: perception_input)
| is_Run_Decision: Run_Decision decision_input
| is_Run_User_Code: Run_User_Code string
| is_Execute_Step: Execute_Step step

record collaborators =
  strategy :: string
  new_session_id :: string
  memory_search :: "event list \<Rightarrow> string \<Rightarrow> memory_entry list"
  perception_run :: "event list \<Rightarrow> perception_input \<Rightarrow> perception_result"
  decision_run :: "event list \<Rightarrow> decision_input \<Rightarrow> decision_output"
  run_user_code :: "event list \<Rightarrow> string \<Rightarrow> executor_response"

record world =
  session :: agent_session
  session_memory :: "memory_entry list"
  trace :: "event list"

datatype outcome = Returned | Raised error | OutOfFuel

type_synonym step_ref = "nat \<times> nat"

subsection \<open>The session class\<close>

text \<open>
  Modelled from the spec: the constructor of \<open>AgentSession\<close> (\<open>agent/agentSession.py\<close>).
  The session is "created at query start" with its identity and query; plan version 1
  is recorded only after the initial decision, so the list starts empty, and the NOP and
  plan-exhaustion paths, which write nothing to the state, end "without a final
  answer", so the state starts with no final answer and the goal not achieved.
\<close>

definition AgentSession :: "string \<Rightarrow> string \<Rightarrow> agent_session" where
  "AgentSession sid q =
     \<lparr>session_id = sid, original_query = q, session_perception = None, plan_versions = [],
      state = \<lparr>st_original_goal_achieved = False, final_answer = None, st_confidence = None,
               reasoning_note = None, st_solution_summary = None\<rparr>\<rparr>"

text \<open>
  Modelled from the spec: \<open>AgentSession.add_perception\<close>. The snapshot "produced
  directly for the opening query" is kept with the session; nothing else changes.
\<close>

definition add_perception :: "agent_session \<Rightarrow> perception_snapshot \<Rightarrow> agent_session" where
  "add_perception s p = s\<lparr>session_perception := Some p\<rparr>"

text \<open>
  Modelled from the spec: \<open>AgentSession.add_plan_version\<close>. A plan version is "the plan
  text plus the ordered sequence of Step objects generated under this version"; the list
  of versions is append-only; the call returns the step the loop executes next, the
  first of the new version.
\<close>

definition add_plan_version ::
  "agent_session \<Rightarrow> string list \<Rightarrow> step list \<Rightarrow> agent_session \<times> step_ref option" where
  "add_plan_version s pt sts =
     (s\<lparr>plan_versions := plan_versions s @ [\<lparr>plan_text = pt, steps = sts\<rparr>]\<rparr>,
      if sts = [] then None else Some (length (plan_versions s), 0))"

text \<open>
  Modelled from the spec: \<open>AgentSession.mark_complete\<close>. The session is marked "complete
  using this snapshot": the state's goal flag, confidence and reasoning note come from
  the snapshot, and so does the final answer unless the caller passes one ("the
  conclusion as final answer"; "no separate final-answer override" otherwise).
\<close>

definition mark_complete ::
  "agent_session \<Rightarrow> perception_snapshot \<Rightarrow> string option \<Rightarrow> agent_session" where
  "mark_complete s p fa =
     s\<lparr>state := (state s)\<lparr>
          st_original_goal_achieved := original_goal_achieved p,
          final_answer := Some (case fa of None \<Rightarrow> solution_summary p | Some a \<Rightarrow> a),
          st_confidence := Some (confidence p),
          reasoning_note := Some (reasoning p)\<rparr>\<rparr>"

text \<open>Reading and writing a step through its reference.\<close>

definition get_step :: "agent_session \<Rightarrow> step_ref \<Rightarrow> step" where
  "get_step s r = steps (plan_versions s ! fst r) ! snd r"

definition set_step :: "agent_session \<Rightarrow> step_ref \<Rightarrow> step \<Rightarrow> agent_session" where
  "set_step s r x =
     s\<lparr>plan_versions :=
         (plan_versions s)[fst r :=
            (plan_versions s ! fst r)\<lparr>steps := (steps (plan_versions s ! fst r))[snd r := x]\<rparr>]\<rparr>"

definition valid_ref :: "agent_session \<Rightarrow> step_ref \<Rightarrow> bool" where
  "valid_ref s r \<longleftrightarrow>
     fst r < length (plan_versions s) \<and> snd r < length (steps (plan_versions s ! fst r))"

subsection \<open>The loop\<close>

definition GLOBAL_PREVIOUS_FAILURE_STEPS :: nat where
  "GLOBAL_PREVIOUS_FAILURE_STEPS = 3"

definition search_memory :: "collaborators \<Rightarrow> event list \<Rightarrow> string \<Rightarrow> memory_entry list \<times> event list" where
  "search_memory C tr q = (memory_search C tr q, tr @ [Search_Memory q])"

definition run_perception ::
  "collaborators \<Rightarrow> event list \<Rightarrow> string option \<Rightarrow> memory_entry list \<Rightarrow>
   memory_entry list option \<Rightarrow> string \<Rightarrow> string list option \<Rightarrow>
   perception_result \<times> event list" where
  "run_perception C tr q memory_results sm stype cp =
     (let combined_memory = memory_results @ (case sm of None \<Rightarrow> [] | Some m \<Rightarrow> m);
          perception_input = \<lparr>raw_input = q, memory = combined_memory, current_plan = cp,
                              snapshot_type = stype\<rparr>
      in (perception_run C tr perception_input, tr @ [Run_Perception perception_input]))"

definition handle_perception_completion ::
  "agent_session \<Rightarrow> perception_result \<Rightarrow> agent_session" where
  "handle_perception_completion s d =
     s\<lparr>state := (state s)\<lparr>
          st_original_goal_achieved := True,
          final_answer := Some (case pr_solution_summary d of None \<Rightarrow> ''Answer ready.'' | Some v \<Rightarrow> v),
          st_confidence := Some (case pr_confidence d of None \<Rightarrow> 95 / 100 | Some v \<Rightarrow> v),
          reasoning_note := Some (case pr_reasoning d of None \<Rightarrow> ''Handled by perception.'' | Some v \<Rightarrow> v),
          st_solution_summary := Some (case pr_solution_summary d of None \<Rightarrow> ''Answer ready.'' | Some v \<Rightarrow> v)\<rparr>\<rparr>"

definition make_initial_decision ::
  "collaborators \<Rightarrow> event list \<Rightarrow> string \<Rightarrow> perception_result \<Rightarrow> decision_output \<times> event list" where
  "make_initial_decision C tr q d =
     (let decision_input = Initial (strategy C) q d
      in (decision_run C tr decision_input, tr @ [Run_Decision decision_input]))"

definition create_step :: "decision_output \<Rightarrow> error + step" where
  "create_step d =
     (case do_step_index d of
        None \<Rightarrow> Inl (KeyError ''step_index'')
      | Some i \<Rightarrow>
       (case do_description d of
          None \<Rightarrow> Inl (KeyError ''description'')
        | Some ds \<Rightarrow>
         (case do_type d of
            None \<Rightarrow> Inl (KeyError ''type'')
          | Some t \<Rightarrow>
             if t = ''CODE'' then
               (case do_code d of
                  None \<Rightarrow> Inl (KeyError ''code'')
                | Some c \<Rightarrow>
                    Inr (Step i ds t
                          (Some \<lparr>tool_name = ''raw_code_block'',
                                 tool_arguments = [(''code'', c)]\<rparr>)
                          (do_conclusion d)))
             else Inr (Step i ds t None (do_conclusion d)))))"

text \<open>
  \<open>session.add_plan_version(decision_output["plan_text"], [self.create_step(...)])\<close>,
  the expression shared by \<open>run\<close> and \<open>append_new_plan_version\<close>: the arguments are
  evaluated from left to right.
\<close>

definition append_new_plan_version ::
  "agent_session \<Rightarrow> decision_output \<Rightarrow> error + (agent_session \<times> step_ref option)" where
  "append_new_plan_version s d =
     (case do_plan_text d of
        None \<Rightarrow> Inl (KeyError ''plan_text'')
      | Some pt \<Rightarrow>
         (case create_step d of
            Inl e \<Rightarrow> Inl e
          | Inr x \<Rightarrow> Inr (add_plan_version s pt [x])))"

definition latest_plan_text :: "agent_session \<Rightarrow> error + string list" where
  "latest_plan_text s =
     (if plan_versions s = [] then Inl IndexError else Inr (plan_text (last (plan_versions s))))"

definition run_mid_session_decision ::
  "collaborators \<Rightarrow> world \<Rightarrow> string \<Rightarrow> step \<Rightarrow> bool \<Rightarrow> (error + decision_output) \<times> world" where
  "run_mid_session_decision C w q completed_step failed =
     (case latest_plan_text (session w) of
        Inl e \<Rightarrow> (Inl e, w)
      | Inr cp \<Rightarrow>
        let decision_input =
              Mid_Session (strategy C) q (length (plan_versions (session w))) cp
                (filter (\<lambda>s. status s = ''completed'')
                   (concat (map steps (plan_versions (session w)))))
                completed_step failed
        in (Inr (decision_run C (trace w) decision_input),
            w\<lparr>trace := trace w @ [Run_Decision decision_input]\<rparr>))"

definition replan_after_failure ::
  "collaborators \<Rightarrow> world \<Rightarrow> string \<Rightarrow> step \<Rightarrow> (error + step_ref option) \<times> world" where
  "replan_after_failure C w q failed_step =
     (case run_mid_session_decision C w q failed_step True of
        (Inl e, w1) \<Rightarrow> (Inl e, w1)
      | (Inr d, w1) \<Rightarrow>
          (case append_new_plan_version (session w1) d of
             Inl e \<Rightarrow> (Inl e, w1)
           | Inr (s2, nxt) \<Rightarrow> (Inr nxt, w1\<lparr>session := s2\<rparr>)))"

definition get_next_step ::
  "collaborators \<Rightarrow> world \<Rightarrow> string \<Rightarrow> step \<Rightarrow> (error + step_ref option) \<times> world" where
  "get_next_step C w q completed_step =
     (case latest_plan_text (session w) of
        Inl e \<Rightarrow> (Inl e, w)
      | Inr latest_plan \<Rightarrow>
        let next_index = index completed_step + 1 in
        if next_index < int (length latest_plan) then
          (case run_mid_session_decision C w q completed_step False of
             (Inl e, w1) \<Rightarrow> (Inl e, w1)
           | (Inr d, w1) \<Rightarrow>
               (case append_new_plan_version (session w1) d of
                  Inl e \<Rightarrow> (Inl e, w1)
                | Inr (s2, nxt) \<Rightarrow> (Inr nxt, w1\<lparr>session := s2\<rparr>)))
        else (Inr None, w))"

definition evaluate_step ::
  "collaborators \<Rightarrow> step_ref \<Rightarrow> world \<Rightarrow> string \<Rightarrow> (error + step_ref option) \<times> world" where
  "evaluate_step C r w q =
     (let x = get_step (session w) r in
      case perception x of
        None \<Rightarrow> (Inl (AttributeError ''original_goal_achieved''), w)
      | Some p \<Rightarrow>
          if original_goal_achieved p then
            (Inr None, w\<lparr>session := mark_complete (session w) p None\<rparr>)
          else if local_goal_achieved p then get_next_step C w q x
          else replan_after_failure C w q x)"

definition execute_step ::
  "collaborators \<Rightarrow> step_ref \<Rightarrow> world \<Rightarrow> (error + step_ref option) \<times> world" where
  "execute_step C r w =
     (let x = get_step (session w) r;
          w0 = w\<lparr>trace := trace w @ [Execute_Step x]\<rparr>
      in
      if type x = ''CODE'' then
        (case code x of
           None \<Rightarrow> (Inl (AttributeError ''tool_arguments''), w0)
         | Some tc \<Rightarrow>
         (case map_of (tool_arguments tc) ''code'' of
           None \<Rightarrow> (Inl (KeyError ''code''), w0)
         | Some src \<Rightarrow>
            let executor_response = run_user_code C (trace w0) src;
                x1 = x\<lparr>execution_result := Some (Response executor_response),
                       status := ''completed''\<rparr>;
                w1 = w0\<lparr>session := set_step (session w0) r x1,
                        trace := trace w0 @ [Run_User_Code src]\<rparr>
            in
            (case latest_plan_text (session w1) of
               Inl e \<Rightarrow> (Inl e, w1)
             | Inr cp \<Rightarrow>
                let (perception_result, tr2) =
                      run_perception C (trace w1)
                        (Some (case er_result executor_response of
                                 None \<Rightarrow> ''Tool Failed'' | Some v \<Rightarrow> v))
                        (session_memory w1) None ''step_result'' (Some cp);
                    w2 = w1\<lparr>trace := tr2\<rparr>
                in
                (case PerceptionSnapshot perception_result of
                   Inl e \<Rightarrow> (Inl e, w2)
                 | Inr p \<Rightarrow>
                    let w3 = w2\<lparr>session := set_step (session w2) r (x1\<lparr>perception := Some p\<rparr>)\<rparr>
                    in
                    if \<not> local_goal_achieved p then
                      let failure_memory =
                            \<lparr>me_file = None, me_query = description x1,
                             me_result_requirement = ''Tool failed'',
                             me_solution_summary = take 300 (er_str executor_response)\<rparr>;
                          m1 = session_memory w3 @ [failure_memory];
                          m2 = (if length m1 > GLOBAL_PREVIOUS_FAILURE_STEPS then tl m1 else m1)
                      in (Inr (Some r), w3\<lparr>session_memory := m2\<rparr>)
                    else (Inr (Some r), w3)))))
      else if type x = ''CONCLUDE'' then
        (let x1 = x\<lparr>execution_result := map_option Text (conclusion x),
                    status := ''completed''\<rparr>;
             w1 = w0\<lparr>session := set_step (session w0) r x1\<rparr>
         in
         (case latest_plan_text (session w1) of
            Inl e \<Rightarrow> (Inl e, w1)
          | Inr cp \<Rightarrow>
             let (perception_result, tr2) =
                   run_perception C (trace w1) (conclusion x1) (session_memory w1) None
                     ''step_result'' (Some cp);
                 w2 = w1\<lparr>trace := tr2\<rparr>
             in
             (case PerceptionSnapshot perception_result of
                Inl e \<Rightarrow> (Inl e, w2)
              | Inr p \<Rightarrow>
                 (Inr None,
                  w2\<lparr>session :=
                       mark_complete (set_step (session w2) r (x1\<lparr>perception := Some p\<rparr>))
                         p (conclusion x1)\<rparr>))))
      else if type x = ''NOP'' then
        (Inr None, w0\<lparr>session := set_step (session w0) r (x\<lparr>status := ''clarification_needed''\<rparr>)\<rparr>)
      else (Inr None, w0))"

fun loop ::
  "collaborators \<Rightarrow> string \<Rightarrow> nat \<Rightarrow> step_ref option \<Rightarrow> world \<Rightarrow> outcome \<times> world" where
  "loop C q fuel None w = (Returned, w)"
| "loop C q 0 (Some r) w = (OutOfFuel, w)"
| "loop C q (Suc fuel) (Some r) w =
     (case execute_step C r w of
        (Inl e, w1) \<Rightarrow> (Raised e, w1)
      | (Inr None, w1) \<Rightarrow> (Returned, w1)
      | (Inr (Some step_result), w1) \<Rightarrow>
          (case evaluate_step C step_result w1 q of
             (Inl e, w2) \<Rightarrow> (Raised e, w2)
           | (Inr nxt, w2) \<Rightarrow> loop C q fuel nxt w2))"

definition run :: "collaborators \<Rightarrow> nat \<Rightarrow> string \<Rightarrow> outcome \<times> world" where
  "run C fuel q =
     (let s0 = AgentSession (new_session_id C) q;
          (memory_results, tr1) = search_memory C [] q;
          (perception_result, tr2) =
             run_perception C tr1 (Some q) memory_results (Some memory_results)
               ''user_query'' None;
          w2 = \<lparr>session = s0, session_memory = [], trace = tr2\<rparr>
      in
      case PerceptionSnapshot perception_result of
        Inl e \<Rightarrow> (Raised e, w2)
      | Inr p \<Rightarrow>
          let s1 = add_perception s0 p in
          if pr_original_goal_achieved perception_result = Some True then
            (Returned, w2\<lparr>session := handle_perception_completion s1 perception_result\<rparr>)
          else
            let (d, tr3) = make_initial_decision C tr2 q perception_result;
                w3 = w2\<lparr>session := s1, trace := tr3\<rparr>
            in
            (case append_new_plan_version s1 d of
               Inl e \<Rightarrow> (Raised e, w3)
             | Inr (s2, nxt) \<Rightarrow> loop C q fuel nxt (w3\<lparr>session := s2\<rparr>)))"

text \<open>
  The first two statements of \<open>run\<close> after the session is created (the memory search and
  the opening perception call), on their own: the perception result and the trace.
\<close>

definition opening_perception :: "collaborators \<Rightarrow> string \<Rightarrow> perception_result \<times> event list" where
  "opening_perception C q =
     (let (memory_results, tr1) = search_memory C [] q
      in run_perception C tr1 (Some q) memory_results (Some memory_results) ''user_query'' None)"

subsection \<open>The invariant of the loop\<close>

text \<open>
  What holds each time the \<open>while\<close> loop is about to execute the step behind \<open>r\<close>:
  the failure memory is within its bound and was so at every perception call on a step
  result; every step executed so far was a CODE step; every plan version holds exactly
  one step; \<open>r\<close> is the step of the latest version and nothing has been written to it;
  the state has no final answer.
\<close>

definition fresh :: "step \<Rightarrow> bool" where
  "fresh x \<longleftrightarrow> execution_result x = None \<and> status x = ''pending'' \<and> perception x = None"

definition loop_inv :: "step_ref \<Rightarrow> world \<Rightarrow> bool" where
  "loop_inv r w \<longleftrightarrow>
     length (session_memory w) \<le> 3 \<and>
     (\<forall>i. Run_Perception i \<in> set (trace w) \<and> snapshot_type i = ''step_result''
          \<longrightarrow> length (memory i) \<le> 3) \<and>
     (\<forall>x. Execute_Step x \<in> set (trace w) \<longrightarrow> type x = ''CODE'') \<and>
     plan_versions (session w) \<noteq> [] \<and>
     (\<forall>pv \<in> set (plan_versions (session w)). length (steps pv) = 1) \<and>
     r = (length (plan_versions (session w)) - 1, 0) \<and>
     fresh (get_step (session w) r) \<and>
     final_answer (state (session w)) = None"

subsection \<open>A small world of collaborators, for concrete runs\<close>

text \<open>
  The executor echoes its code as the result. Perception judges the text it is shown:
  \<open>done\<close> achieves both goals, \<open>ok\<close> the local goal only, \<open>odd\<close> the original goal
  only, anything else neither. Decision follows a script: its \<open>n\<close>-th call returns the
  \<open>n\<close>-th entry, and a NOP step once the script is used up. The memory search finds one
  record.
\<close>

definition judgement :: "bool \<Rightarrow> bool \<Rightarrow> string \<Rightarrow> perception_result" where
  "judgement og lg txt =
     \<lparr>pr_original_goal_achieved = Some og, pr_local_goal_achieved = Some lg,
      pr_confidence = Some (9 / 10), pr_reasoning = Some ''judged'',
      pr_solution_summary = Some txt\<rparr>"

definition demo_perception :: "event list \<Rightarrow> perception_input \<Rightarrow> perception_result" where
  "demo_perception tr i =
     (case raw_input i of
        None \<Rightarrow> judgement False False []
      | Some txt \<Rightarrow>
          if txt = ''done'' then judgement True True txt
          else if txt = ''ok'' then judgement False True txt
          else if txt = ''odd'' then judgement True False txt
          else judgement False False txt)"

definition code_step :: "int \<Rightarrow> string \<Rightarrow> string list \<Rightarrow> decision_output" where
  "code_step i src pt =
     \<lparr>do_step_index = Some i, do_description = Some (''run '' @ src), do_type = Some ''CODE'',
      do_code = Some src, do_conclusion = None, do_plan_text = Some pt\<rparr>"

definition conclude_step :: "int \<Rightarrow> string \<Rightarrow> string list \<Rightarrow> decision_output" where
  "conclude_step i c pt =
     \<lparr>do_step_index = Some i, do_description = Some ''conclude'', do_type = Some ''CONCLUDE'',
      do_code = None, do_conclusion = Some c, do_plan_text = Some pt\<rparr>"

definition nop_step :: "int \<Rightarrow> string list \<Rightarrow> decision_output" where
  "nop_step i pt =
     \<lparr>do_step_index = Some i, do_description = Some ''which file?'', do_type = Some ''NOP'',
      do_code = None, do_conclusion = None, do_plan_text = Some pt\<rparr>"

definition demo_decision :: "decision_output list \<Rightarrow> event list \<Rightarrow> decision_input \<Rightarrow> decision_output" where
  "demo_decision script tr i =
     (let n = length (filter is_Run_Decision tr)
      in if n < length script then script ! n else nop_step 0 [''ask''])"

definition demo_record :: memory_entry where
  "demo_record =
     \<lparr>me_file = Some ''session_1.json'', me_query = ''earlier question'',
      me_result_requirement = ''a number'', me_solution_summary = ''42''\<rparr>"

definition demo :: "decision_output list \<Rightarrow> collaborators" where
  "demo script =
     \<lparr>strategy = ''exploratory'', new_session_id = ''session-0'',
      memory_search = (\<lambda>tr q. [demo_record]),
      perception_run = demo_perception,
      decision_run = demo_decision script,
      run_user_code = (\<lambda>tr src. \<lparr>er_result = Some src, er_str = ''result: '' @ src\<rparr>)\<rparr>"

text \<open>
  The world of a run of the small collaborators on the query \<open>hello\<close>, stopped after
  \<open>n\<close> iterations of the loop (or at its end, when it ends earlier).
\<close>

definition at_loop :: "decision_output list \<Rightarrow> nat \<Rightarrow> world" where
  "at_loop script n = snd (run (demo script) n ''hello'')"

text \<open>The world of that run once \<open>execute_step\<close> has run on the step of iteration \<open>n\<close>.\<close>

definition executed :: "decision_output list \<Rightarrow> nat \<Rightarrow> world" where
  "executed script n = snd (execute_step (demo script) (n, 0) (at_loop script n))"

text \<open>Scripts for the decision component.\<close>

definition odd_script :: "decision_output list" where
  "odd_script = [code_step 0 ''odd'' [''a'']]"

definition advance_script :: "decision_output list" where
  "advance_script = [code_step 0 ''ok'' [''a'', ''b''], conclude_step 1 ''fine'' [''a'', ''b'']]"

definition single_line_script :: "decision_output list" where
  "single_line_script = [code_step 0 ''ok'' [''a'']]"

definition one_failure_script :: "decision_output list" where
  "one_failure_script = [code_step 0 ''bad1'' [''a'']]"

definition long_script :: "decision_output list" where
  "long_script = [code_step 0 (replicate 400 CHR ''z'') [''a'']]"

definition failing_script :: "decision_output list" where
  "failing_script =
     [code_step 0 ''bad1'' [''a''], code_step 0 ''bad2'' [''a''],
      code_step 0 ''bad3'' [''a''], code_step 0 ''bad4'' [''a'']]"

subsection \<open>Steps behind references\<close>

lemma map_update_same: "(map f xs)[i := f (xs ! i)] = map f xs"
  by (cases "i < length xs") (simp_all add: list_eq_iff_nth_eq nth_list_update)

lemma length_set_step: "length (plan_versions (set_step s r x)) = length (plan_versions s)"
  by (simp add: set_step_def)

lemma state_set_step: "state (set_step s r x) = state s"
  by (simp add: set_step_def)

lemma steps_lengths_set_step:
  "map (\<lambda>pv. length (steps pv)) (plan_versions (set_step s r x)) =
   map (\<lambda>pv. length (steps pv)) (plan_versions s)"
  using map_update_same [of "\<lambda>pv. length (steps pv)" "plan_versions s" "fst r"]
  by (simp add: set_step_def map_update)

lemma plan_texts_set_step:
  "map plan_text (plan_versions (set_step s r x)) = map plan_text (plan_versions s)"
  by (simp add: set_step_def map_update map_update_same)

lemma latest_plan_text_set_step: "latest_plan_text (set_step s r x) = latest_plan_text s"
proof (cases "plan_versions s = []")
  case True
  then show ?thesis by (simp add: latest_plan_text_def set_step_def)
next
  case False
  have "plan_versions (set_step s r x) \<noteq> []"
    using False length_set_step [of s r x] by (metis length_0_conv)
  moreover have "plan_text (last (plan_versions (set_step s r x))) = plan_text (last (plan_versions s))"
    using plan_texts_set_step [of s r x] False calculation by (metis last_map)
  ultimately show ?thesis using False by (simp add: latest_plan_text_def)
qed

lemma get_set_step: "valid_ref s r \<Longrightarrow> get_step (set_step s r x) r = x"
  by (simp add: valid_ref_def get_step_def set_step_def)

lemma valid_ref_set_step: "valid_ref (set_step s r x) r' = valid_ref s r'"
  by (cases "fst r' = fst r") (auto simp: valid_ref_def set_step_def nth_list_update)

lemma set_step_set_step: "set_step (set_step s r x) r y = set_step s r y"
  by (cases "fst r < length (plan_versions s)") (simp_all add: set_step_def list_update_beyond)


lemma execute_step_memory_bound:
  "length (session_memory w) \<le> 3 \<Longrightarrow> execute_step C r w = (res, w1) \<Longrightarrow>
   length (session_memory w1) \<le> 3"
  by (auto simp: execute_step_def Let_def run_perception_def GLOBAL_PREVIOUS_FAILURE_STEPS_def
      split: if_splits option.splits sum.splits prod.splits)

subsection \<open>One iteration of the loop\<close>

lemma loop_inv_valid_ref: "loop_inv r w \<Longrightarrow> valid_ref (session w) r"
  by (auto simp: loop_inv_def valid_ref_def)

lemma create_step_fresh: "create_step d = Inr x \<Longrightarrow> fresh x"
  by (auto simp: create_step_def Step_def fresh_def split: option.splits if_splits)

lemma append_new_plan_version_Inr:
  assumes "append_new_plan_version s d = Inr (s2, nxt)"
  shows "\<exists>pt x. do_plan_text d = Some pt \<and> create_step d = Inr x \<and> fresh x \<and>
           s2 = s\<lparr>plan_versions := plan_versions s @ [\<lparr>plan_text = pt, steps = [x]\<rparr>]\<rparr> \<and>
           nxt = Some (length (plan_versions s), 0)"
  using assms
  by (auto simp: append_new_plan_version_def add_plan_version_def create_step_fresh
      split: option.splits sum.splits)

lemma all_one_step_set_step:
  "(\<forall>pv \<in> set (plan_versions (set_step s r x)). length (steps pv) = 1) \<longleftrightarrow>
   (\<forall>pv \<in> set (plan_versions s). length (steps pv) = 1)"
proof -
  have "(\<forall>pv \<in> set pvs. length (steps pv) = 1) \<longleftrightarrow>
        (\<forall>n \<in> set (map (\<lambda>pv. length (steps pv)) pvs). n = 1)" for pvs :: "plan_version list"
    by auto
  then show ?thesis
    by (simp only: steps_lengths_set_step)
qed

lemma plan_versions_nonempty_set_step:
  "plan_versions (set_step s r x) = [] \<longleftrightarrow> plan_versions s = []"
  using length_set_step [of s r x] by (metis length_0_conv)

lemma execute_step_trace:
  assumes "execute_step C r w = (res, w1)"
  shows "\<exists>rest. trace w1 = trace w @ Execute_Step (get_step (session w) r) # rest \<and>
           (\<forall>ev \<in> set rest. \<not> is_Execute_Step ev \<and> \<not> is_Run_Decision ev \<and> \<not> is_Search_Memory ev) \<and>
           (\<forall>i. Run_Perception i \<in> set rest \<longrightarrow> memory i = session_memory w \<and> snapshot_type i = ''step_result'')"
  using assms
  by (auto simp: execute_step_def Let_def run_perception_def
      split: if_splits option.splits sum.splits prod.splits)

lemma run_mid_session_decision_effect:
  assumes "run_mid_session_decision C w q x b = (res, w1)"
  shows "session w1 = session w \<and> session_memory w1 = session_memory w \<and>
         (\<exists>rest. trace w1 = trace w @ rest \<and> (\<forall>ev \<in> set rest. is_Run_Decision ev))"
  using assms
  by (auto simp: run_mid_session_decision_def Let_def split: sum.splits)

lemma evaluate_step_trace:
  assumes "evaluate_step C r w q = (res, w1)"
  shows "session_memory w1 = session_memory w \<and>
         (\<exists>rest. trace w1 = trace w @ rest \<and> (\<forall>ev \<in> set rest. is_Run_Decision ev))"
proof -
  have g: "get_next_step C w q x = (res, w1) \<Longrightarrow> ?thesis" for x
    by (auto simp: get_next_step_def Let_def
        split: sum.splits if_splits prod.splits
        dest!: run_mid_session_decision_effect)
  have p: "replan_after_failure C w q x = (res, w1) \<Longrightarrow> ?thesis" for x
    by (auto simp: replan_after_failure_def Let_def
        split: sum.splits if_splits prod.splits
        dest!: run_mid_session_decision_effect)
  show ?thesis
    using assms g p
    by (auto simp: evaluate_step_def Let_def split: option.splits if_splits)
qed

lemma loop_trace_extends:
  "loop C q n nxt w = (oc, w') \<Longrightarrow> \<exists>tr. trace w' = trace w @ tr"
proof (induction n arbitrary: nxt w)
  case 0
  then show ?case by (cases nxt) auto
next
  case (Suc n)
  show ?case
  proof (cases nxt)
    case None
    with Suc.prems show ?thesis by simp
  next
    case (Some r)
    obtain res w1 where ex: "execute_step C r w = (res, w1)" by (cases "execute_step C r w")
    from execute_step_trace [OF ex] obtain t1 where t1: "trace w1 = trace w @ t1" by auto
    show ?thesis
    proof (cases res)
      case (Inl e)
      with Suc.prems Some ex t1 show ?thesis by auto
    next
      case (Inr sr)
      show ?thesis
      proof (cases sr)
        case None
        with Suc.prems Some ex t1 Inr show ?thesis by auto
      next
        case (Some r1)
        obtain res2 w2 where ev: "evaluate_step C r1 w1 q = (res2, w2)"
          by (cases "evaluate_step C r1 w1 q")
        from evaluate_step_trace [OF ev] obtain t2 where t2: "trace w2 = trace w1 @ t2" by auto
        show ?thesis
        proof (cases res2)
          case (Inl e)
          with Suc.prems \<open>nxt = Some r\<close> ex Inr Some ev t1 t2 show ?thesis by auto
        next
          case (Inr nxt2)
          with Suc.prems \<open>nxt = Some r\<close> ex \<open>res = Inr sr\<close> Some ev
          have "loop C q n nxt2 w2 = (oc, w')" by simp
          from Suc.IH [OF this] t1 t2 show ?thesis by auto
        qed
      qed
    qed
  qed
qed


lemma execute_step_continue:
  assumes "execute_step C r w = (Inr (Some sr), w1)"
  shows "sr = r \<and> type (get_step (session w) r) = ''CODE'' \<and>
         (\<exists>x'. session w1 = set_step (session w) r x' \<and> perception x' \<noteq> None) \<and>
         length (session_memory w1) \<le> max 3 (length (session_memory w))"
  using assms
  by (auto simp: execute_step_def Let_def run_perception_def set_step_set_step
      GLOBAL_PREVIOUS_FAILURE_STEPS_def
      split: if_splits option.splits sum.splits prod.splits)

lemma evaluate_step_continue:
  assumes "evaluate_step C sr w1 q = (Inr (Some r'), w2)"
  shows "\<exists>pt x. fresh x \<and>
           session w2 = (session w1)\<lparr>plan_versions :=
              plan_versions (session w1) @ [\<lparr>plan_text = pt, steps = [x]\<rparr>]\<rparr> \<and>
           r' = (length (plan_versions (session w1)), 0)"
proof -
  have g: ?thesis if "get_next_step C w1 q x = (Inr (Some r'), w2)" for x
    using that
    by (auto simp: get_next_step_def Let_def
        split: sum.splits if_splits prod.splits
        dest!: run_mid_session_decision_effect append_new_plan_version_Inr; blast)
  have p: ?thesis if "replan_after_failure C w1 q x = (Inr (Some r'), w2)" for x
    using that
    by (auto simp: replan_after_failure_def Let_def
        split: sum.splits if_splits prod.splits
        dest!: run_mid_session_decision_effect append_new_plan_version_Inr; blast)
  show ?thesis
    using assms g p
    by (auto simp: evaluate_step_def Let_def split: option.splits if_splits)
qed

lemma iteration_preserves:
  assumes inv: "loop_inv r w"
    and ex: "execute_step C r w = (Inr (Some sr), w1)"
    and ev: "evaluate_step C sr w1 q = (Inr (Some r'), w2)"
  shows "loop_inv r' w2"
proof -
  from execute_step_continue [OF ex] obtain x' where
    sr: "sr = r" and ty: "type (get_step (session w) r) = ''CODE''"
    and s1: "session w1 = set_step (session w) r x'"
    and m1: "length (session_memory w1) \<le> max 3 (length (session_memory w))"
    by blast
  from execute_step_trace [OF ex] obtain rest where
    t1: "trace w1 = trace w @ Execute_Step (get_step (session w) r) # rest"
    and r1: "\<forall>ev \<in> set rest. \<not> is_Execute_Step ev"
    and r2: "\<forall>i. Run_Perception i \<in> set rest \<longrightarrow>
               memory i = session_memory w \<and> snapshot_type i = ''step_result''"
    by blast
  from evaluate_step_continue [OF ev] obtain pt x where
    fx: "fresh x"
    and s2: "session w2 = (session w1)\<lparr>plan_versions :=
              plan_versions (session w1) @ [\<lparr>plan_text = pt, steps = [x]\<rparr>]\<rparr>"
    and r': "r' = (length (plan_versions (session w1)), 0)"
    by blast
  from evaluate_step_trace [OF ev] obtain rest2 where
    m2: "session_memory w2 = session_memory w1"
    and t2: "trace w2 = trace w1 @ rest2"
    and r3: "\<forall>ev \<in> set rest2. is_Run_Decision ev"
    by blast
  have a: "length (session_memory w2) \<le> 3"
    using inv m1 m2 by (simp add: loop_inv_def)
  have b: "\<forall>i. Run_Perception i \<in> set (trace w2) \<and> snapshot_type i = ''step_result''
          \<longrightarrow> length (memory i) \<le> 3"
    using inv t1 t2 r2 r3 by (auto simp: loop_inv_def)
  have c: "\<forall>y. Execute_Step y \<in> set (trace w2) \<longrightarrow> type y = ''CODE''"
    using inv t1 t2 r1 r3 ty by (auto simp: loop_inv_def)
  have d: "\<forall>pv \<in> set (plan_versions (session w2)). length (steps pv) = 1"
    using inv s1 s2 all_one_step_set_step [of "session w" r x'] by (auto simp: loop_inv_def)
  have e: "fresh (get_step (session w2) r')"
    using fx s2 r' by (simp add: get_step_def)
  have f: "final_answer (state (session w2)) = None"
    using inv s1 s2 by (simp add: loop_inv_def state_set_step)
  show ?thesis
    using a b c d e f s2 r' by (simp add: loop_inv_def)
qed

lemma loop_last_iteration:
  assumes "loop_inv r w" and "loop C q n (Some r) w = (oc, w')"
  shows "\<exists>r0 w0. loop_inv r0 w0 \<and> (\<exists>tr. trace w0 = trace w @ tr) \<and>
           (oc = OutOfFuel \<and> w' = w0 \<or>
            oc \<noteq> OutOfFuel \<and> loop C q (Suc 0) (Some r0) w0 = (oc, w'))"
  using assms
proof (induction n arbitrary: r w)
  case 0
  then have "loop_inv r w \<and> trace w = trace w @ [] \<and> oc = OutOfFuel \<and> w' = w" by auto
  then show ?case by blast
next
  case (Suc n)
  obtain res w1 where ex: "execute_step C r w = (res, w1)" by (cases "execute_step C r w")
  show ?case
  proof (cases "\<exists>sr. res = Inr (Some sr)")
    case False
    then have "(\<exists>e. res = Inl e) \<or> res = Inr None"
      by (cases res; cases "projr res") auto
    then have "loop C q (Suc 0) (Some r) w = loop C q (Suc n) (Some r) w \<and> oc \<noteq> OutOfFuel"
      using ex Suc.prems(2) by auto
    with Suc.prems show ?thesis by (metis append_Nil2)
  next
    case True
    then obtain sr where res: "res = Inr (Some sr)" by blast
    obtain res2 w2 where ev: "evaluate_step C sr w1 q = (res2, w2)"
      by (cases "evaluate_step C sr w1 q")
    show ?thesis
    proof (cases "\<exists>r'. res2 = Inr (Some r')")
      case False
      then have "(\<exists>e. res2 = Inl e) \<or> res2 = Inr None"
        by (cases res2; cases "projr res2") auto
      then have "loop C q (Suc 0) (Some r) w = loop C q (Suc n) (Some r) w \<and> oc \<noteq> OutOfFuel"
        using ex res ev Suc.prems(2) by auto
      with Suc.prems show ?thesis by (metis append_Nil2)
    next
      case True
      then obtain r' where res2: "res2 = Inr (Some r')" by blast
      have inv': "loop_inv r' w2"
        using iteration_preserves [OF Suc.prems(1)] ex res ev res2 by simp
      have "loop C q n (Some r') w2 = (oc, w')"
        using Suc.prems(2) ex res ev res2 by simp
      from Suc.IH [OF inv' this] obtain r0 w0 tr where
        "loop_inv r0 w0" "trace w0 = trace w2 @ tr"
        "oc = OutOfFuel \<and> w' = w0 \<or> oc \<noteq> OutOfFuel \<and> loop C q (Suc 0) (Some r0) w0 = (oc, w')"
        by blast
      moreover have "\<exists>t. trace w2 = trace w @ t"
        using execute_step_trace [OF ex] evaluate_step_trace [OF ev] by auto
      ultimately have "loop_inv r0 w0 \<and> (\<exists>t. trace w0 = trace w @ t) \<and>
          (oc = OutOfFuel \<and> w' = w0 \<or>
           oc \<noteq> OutOfFuel \<and> loop C q (Suc 0) (Some r0) w0 = (oc, w'))"
        by (auto simp del: loop.simps)
      then show ?thesis by blast
    qed
  qed
qed

subsection \<open>The opening of \<open>run\<close>\<close>

lemma run_unfold:
  "run C fuel q =
     (let (perception_result, tr2) = opening_perception C q;
          s0 = AgentSession (new_session_id C) q;
          w2 = \<lparr>session = s0, session_memory = [], trace = tr2\<rparr>
      in
      case PerceptionSnapshot perception_result of
        Inl e \<Rightarrow> (Raised e, w2)
      | Inr p \<Rightarrow>
          let s1 = add_perception s0 p in
          if pr_original_goal_achieved perception_result = Some True then
            (Returned, w2\<lparr>session := handle_perception_completion s1 perception_result\<rparr>)
          else
            let (d, tr3) = make_initial_decision C tr2 q perception_result;
                w3 = w2\<lparr>session := s1, trace := tr3\<rparr>
            in
            (case append_new_plan_version s1 d of
               Inl e \<Rightarrow> (Raised e, w3)
             | Inr (s2, nxt) \<Rightarrow> loop C q fuel nxt (w3\<lparr>session := s2\<rparr>)))"
  by (simp add: run_def opening_perception_def Let_def split: prod.splits)

lemma PerceptionSnapshot_Inr:
  "PerceptionSnapshot d = Inr p \<Longrightarrow>
     pr_original_goal_achieved d = Some (original_goal_achieved p) \<and>
     pr_local_goal_achieved d = Some (local_goal_achieved p) \<and>
     pr_confidence d = Some (confidence p) \<and>
     pr_reasoning d = Some (reasoning p) \<and>
     pr_solution_summary d = Some (solution_summary p)"
  by (auto simp: PerceptionSnapshot_def split: option.splits)

lemma run_trace_prefix: "\<exists>tr. trace (snd (run C fuel q)) = snd (opening_perception C q) @ tr"
proof -
  obtain d tr2 where op: "opening_perception C q = (d, tr2)"
    by (cases "opening_perception C q")
  show ?thesis
  proof (cases "PerceptionSnapshot d")
    case (Inl e)
    with op show ?thesis by (simp add: run_unfold)
  next
    case (Inr p)
    show ?thesis
    proof (cases "pr_original_goal_achieved d = Some True")
      case True
      with op Inr show ?thesis by (simp add: run_unfold)
    next
      case False
      obtain dd tr3 where md: "make_initial_decision C tr2 q d = (dd, tr3)"
        by (cases "make_initial_decision C tr2 q d")
      then have tr3: "\<exists>t. tr3 = tr2 @ t"
        by (auto simp: make_initial_decision_def Let_def)
      show ?thesis
      proof (cases "append_new_plan_version (add_perception (AgentSession (new_session_id C) q) p) dd")
        case (Inl e)
        with op Inr False md tr3 show ?thesis by (auto simp: run_unfold)
      next
        case (Inr sn)
        obtain s2 nxt where sn: "sn = (s2, nxt)" by (cases sn)
        define w3 where "w3 = \<lparr>session = s2, session_memory = [], trace = tr3\<rparr>"
        have "run C fuel q = loop C q fuel nxt w3"
          using op \<open>PerceptionSnapshot d = Inr p\<close> False md Inr sn
          by (simp add: run_unfold w3_def)
        moreover obtain oc w' where l: "loop C q fuel nxt w3 = (oc, w')"
          by (cases "loop C q fuel nxt w3")
        ultimately show ?thesis
          using loop_trace_extends [OF l] tr3 op by (auto simp: w3_def)
      qed
    qed
  qed
qed

lemma opening_trace:
  "snd (opening_perception C q) =
     [Search_Memory q,
      Run_Perception \<lparr>raw_input = Some q,
        memory = memory_search C [] q @ memory_search C [] q,
        current_plan = None, snapshot_type = ''user_query''\<rparr>]"
  by (simp add: opening_perception_def search_memory_def run_perception_def Let_def)

lemma run_cases:
  assumes "run C fuel q = (oc, w')"
  shows "(\<exists>e. oc = Raised e) \<and> session_memory w' = [] \<and> plan_versions (session w') = [] \<and>
           (\<forall>ev \<in> set (trace w'). \<not> is_Execute_Step ev \<and>
              (\<forall>i. ev = Run_Perception i \<longrightarrow> snapshot_type i = ''user_query''))
       \<or> oc = Returned \<and> pr_original_goal_achieved (fst (opening_perception C q)) = Some True \<and>
           session_memory w' = [] \<and> plan_versions (session w') = [] \<and>
           trace w' = snd (opening_perception C q)
       \<or> pr_original_goal_achieved (fst (opening_perception C q)) \<noteq> Some True \<and>
           (\<exists>r w. loop_inv r w \<and> loop C q fuel (Some r) w = (oc, w'))"
proof -
  obtain d tr2 where op: "opening_perception C q = (d, tr2)"
    by (cases "opening_perception C q")
  have tr2: "tr2 = snd (opening_perception C q)" using op by simp
  note ot = opening_trace [of C q]
  show ?thesis
  proof (cases "PerceptionSnapshot d")
    case (Inl e)
    with op assms have "oc = Raised e \<and> w' = \<lparr>session = AgentSession (new_session_id C) q,
        session_memory = [], trace = tr2\<rparr>"
      by (auto simp: run_unfold)
    then show ?thesis using tr2 ot by (auto simp: AgentSession_def)
  next
    case (Inr p)
    show ?thesis
    proof (cases "pr_original_goal_achieved d = Some True")
      case True
      with op Inr assms show ?thesis
        by (auto simp: run_unfold handle_perception_completion_def add_perception_def
            AgentSession_def)
    next
      case False
      obtain dd tr3 where md: "make_initial_decision C tr2 q d = (dd, tr3)"
        by (cases "make_initial_decision C tr2 q d")
      then have tr3: "\<exists>di. tr3 = tr2 @ [Run_Decision di]"
        by (auto simp: make_initial_decision_def Let_def)
      define s1 where "s1 = add_perception (AgentSession (new_session_id C) q) p"
      have s1: "plan_versions s1 = [] \<and> final_answer (state s1) = None"
        by (simp add: s1_def add_perception_def AgentSession_def)
      show ?thesis
      proof (cases "append_new_plan_version s1 dd")
        case (Inl e)
        with op Inr False md assms
        have "oc = Raised e \<and> w' = \<lparr>session = s1, session_memory = [], trace = tr3\<rparr>"
          by (auto simp: run_unfold s1_def)
        then show ?thesis using tr3 tr2 ot s1 by auto
      next
        case (Inr sn)
        obtain s2 nxt where sn: "sn = (s2, nxt)" by (cases sn)
        from append_new_plan_version_Inr [OF Inr [unfolded sn]] obtain pt x where
          fx: "fresh x"
          and s2: "s2 = s1\<lparr>plan_versions := plan_versions s1 @ [\<lparr>plan_text = pt, steps = [x]\<rparr>]\<rparr>"
          and nxt: "nxt = Some (length (plan_versions s1), 0)"
          by blast
        define w3 where "w3 = \<lparr>session = s2, session_memory = [], trace = tr3\<rparr>"
        have run: "run C fuel q = loop C q fuel nxt w3"
          using op \<open>PerceptionSnapshot d = Inr p\<close> False md Inr sn
          by (simp add: run_unfold w3_def s1_def)
        have "loop_inv (0, 0) w3"
          using fx s2 s1 tr3 tr2 ot
          by (auto simp: loop_inv_def w3_def get_step_def)
        then show ?thesis
          using run assms nxt s1 False op by auto
      qed
    qed
  qed
qed

lemma one_iteration:
  assumes "loop C q (Suc 0) (Some r) w = (oc, w')"
  shows "(\<exists>e. execute_step C r w = (Inl e, w') \<and> oc = Raised e)
       \<or> (execute_step C r w = (Inr None, w') \<and> oc = Returned)
       \<or> (\<exists>sr w1. execute_step C r w = (Inr (Some sr), w1) \<and>
            ((\<exists>e. evaluate_step C sr w1 q = (Inl e, w') \<and> oc = Raised e)
             \<or> (evaluate_step C sr w1 q = (Inr None, w') \<and> oc = Returned)
             \<or> (\<exists>r'. evaluate_step C sr w1 q = (Inr (Some r'), w') \<and> oc = OutOfFuel)))"
proof -
  obtain res w1 where ex: "execute_step C r w = (res, w1)" by (cases "execute_step C r w")
  show ?thesis
  proof (cases res)
    case (Inl e)
    with ex assms show ?thesis by auto
  next
    case (Inr sr)
    show ?thesis
    proof (cases sr)
      case None
      with ex Inr assms show ?thesis by auto
    next
      case (Some r1)
      obtain res2 w2 where ev: "evaluate_step C r1 w1 q = (res2, w2)"
        by (cases "evaluate_step C r1 w1 q")
      show ?thesis
      proof (cases res2)
        case (Inl e)
        with ex \<open>res = Inr sr\<close> Some ev assms show ?thesis by auto
      next
        case (Inr nxt)
        with ex \<open>res = Inr sr\<close> Some ev assms show ?thesis by (cases nxt) auto
      qed
    qed
  qed
qed

lemma run_last_iteration:
  assumes "run C fuel q = (oc, w')"
  shows "(\<exists>e. oc = Raised e) \<and> session_memory w' = [] \<and> plan_versions (session w') = [] \<and>
           (\<forall>ev \<in> set (trace w'). \<not> is_Execute_Step ev \<and>
              (\<forall>i. ev = Run_Perception i \<longrightarrow> snapshot_type i = ''user_query''))
       \<or> oc = Returned \<and> pr_original_goal_achieved (fst (opening_perception C q)) = Some True \<and>
           session_memory w' = [] \<and> plan_versions (session w') = [] \<and>
           trace w' = snd (opening_perception C q)
       \<or> pr_original_goal_achieved (fst (opening_perception C q)) \<noteq> Some True \<and>
           (\<exists>r0 w0. loop_inv r0 w0 \<and>
              (oc = OutOfFuel \<and> w' = w0 \<or>
               oc \<noteq> OutOfFuel \<and> loop C q (Suc 0) (Some r0) w0 = (oc, w')))"
  using run_cases [OF assms]
proof (elim disjE)
  assume "pr_original_goal_achieved (fst (opening_perception C q)) \<noteq> Some True \<and>
          (\<exists>r w. loop_inv r w \<and> loop C q fuel (Some r) w = (oc, w'))"
  then obtain r w where n: "pr_original_goal_achieved (fst (opening_perception C q)) \<noteq> Some True"
    and i: "loop_inv r w" and l: "loop C q fuel (Some r) w = (oc, w')"
    by blast
  from loop_last_iteration [OF i l] n show ?thesis by blast
qed blast+

lemma plan_versions_mark_complete: "plan_versions (mark_complete s p fa) = plan_versions s"
  by (simp add: mark_complete_def)

lemma execute_step_plan_shape:
  assumes "execute_step C r w = (res, w1)"
  shows "map (\<lambda>pv. length (steps pv)) (plan_versions (session w1)) =
         map (\<lambda>pv. length (steps pv)) (plan_versions (session w))"
  using assms
  by (auto simp: execute_step_def Let_def run_perception_def plan_versions_mark_complete
      steps_lengths_set_step
      split: if_splits option.splits sum.splits prod.splits)

lemma execute_step_one_step_each:
  assumes "execute_step C r w = (res, w1)"
    and "plan_versions (session w) \<noteq> []"
    and "\<forall>pv \<in> set (plan_versions (session w)). length (steps pv) = 1"
  shows "plan_versions (session w1) \<noteq> [] \<and>
         (\<forall>pv \<in> set (plan_versions (session w1)). length (steps pv) = 1)"
proof -
  have eq: "(\<forall>pv \<in> set pvs. length (steps pv) = 1) \<longleftrightarrow>
        (\<forall>n \<in> set (map (\<lambda>pv. length (steps pv)) pvs). n = 1)" for pvs :: "plan_version list"
    by auto
  have "plan_versions (session w1) \<noteq> []"
    using execute_step_plan_shape [OF assms(1)] assms(2) by (metis map_is_Nil_conv)
  moreover have "\<forall>pv \<in> set (plan_versions (session w1)). length (steps pv) = 1"
    using assms(3) unfolding eq execute_step_plan_shape [OF assms(1)] .
  ultimately show ?thesis by simp
qed

lemma evaluate_step_plan_versions:
  assumes "evaluate_step C r w q = (res, w1)"
  shows "plan_versions (session w1) = plan_versions (session w) \<or>
         (\<exists>pt x. plan_versions (session w1) =
            plan_versions (session w) @ [\<lparr>plan_text = pt, steps = [x]\<rparr>])"
proof -
  have g: ?thesis if "get_next_step C w q x = (res, w1)" for x
    using that
    by (auto simp: get_next_step_def Let_def
        split: sum.splits if_splits prod.splits
        dest!: run_mid_session_decision_effect append_new_plan_version_Inr)
  have p: ?thesis if "replan_after_failure C w q x = (res, w1)" for x
    using that
    by (auto simp: replan_after_failure_def Let_def
        split: sum.splits if_splits prod.splits
        dest!: run_mid_session_decision_effect append_new_plan_version_Inr)
  show ?thesis
    using assms g p
    by (auto simp: evaluate_step_def Let_def plan_versions_mark_complete
        split: option.splits if_splits)
qed

lemma last_iteration_one_step_each:
  assumes "loop_inv r0 w0" and "loop C q (Suc 0) (Some r0) w0 = (oc, w')"
  shows "plan_versions (session w') \<noteq> [] \<and>
         (\<forall>pv \<in> set (plan_versions (session w')). length (steps pv) = 1)"
proof -
  have a: "plan_versions (session w0) \<noteq> []"
    and b: "\<forall>pv \<in> set (plan_versions (session w0)). length (steps pv) = 1"
    using assms(1) by (simp_all add: loop_inv_def)
  have ev: "plan_versions (session w2) \<noteq> [] \<and>
         (\<forall>pv \<in> set (plan_versions (session w2)). length (steps pv) = 1)"
    if "execute_step C r0 w0 = (res, w1)" "evaluate_step C sr w1 q = (res2, w2)"
    for res w1 sr res2 w2
    using execute_step_one_step_each [OF that(1) a b] evaluate_step_plan_versions [OF that(2)]
    by auto
  from one_iteration [OF assms(2)] show ?thesis
    using execute_step_one_step_each [OF _ a b] ev by (elim disjE exE conjE) blast+
qed

subsection \<open>The branches of \<open>execute_step\<close>\<close>

lemma valid_ref_nonempty: "valid_ref s r \<Longrightarrow> plan_versions s \<noteq> []"
  by (auto simp: valid_ref_def)

lemma latest_plan_text_Inr:
  "plan_versions s \<noteq> [] \<Longrightarrow> latest_plan_text s = Inr (plan_text (last (plan_versions s)))"
  by (simp add: latest_plan_text_def)

lemma last_plan_text_set_step:
  "plan_versions s \<noteq> [] \<Longrightarrow>
   plan_text (last (plan_versions (set_step s r x))) = plan_text (last (plan_versions s))"
  using latest_plan_text_set_step [of s r x] plan_versions_nonempty_set_step [of s r x]
  by (simp add: latest_plan_text_def)

lemma execute_step_CODE:
  assumes "execute_step C r w = (Inr (Some sr), w1)" and "valid_ref (session w) r"
  obtains tc src p where
    "sr = r"
    "type (get_step (session w) r) = ''CODE''"
    "code (get_step (session w) r) = Some tc"
    "map_of (tool_arguments tc) ''code'' = Some src"
    "PerceptionSnapshot
       (perception_run C
          (trace w @ [Execute_Step (get_step (session w) r), Run_User_Code src])
          \<lparr>raw_input =
             Some (case er_result (run_user_code C
                      (trace w @ [Execute_Step (get_step (session w) r)]) src) of
                     None \<Rightarrow> ''Tool Failed'' | Some v \<Rightarrow> v),
           memory = session_memory w,
           current_plan = Some (plan_text (last (plan_versions (session w)))),
           snapshot_type = ''step_result''\<rparr>) = Inr p"
    "trace w1 =
       trace w @
       [Execute_Step (get_step (session w) r), Run_User_Code src,
        Run_Perception
          \<lparr>raw_input =
             Some (case er_result (run_user_code C
                      (trace w @ [Execute_Step (get_step (session w) r)]) src) of
                     None \<Rightarrow> ''Tool Failed'' | Some v \<Rightarrow> v),
           memory = session_memory w,
           current_plan = Some (plan_text (last (plan_versions (session w)))),
           snapshot_type = ''step_result''\<rparr>]"
    "session w1 =
       set_step (session w) r
         ((get_step (session w) r)
            \<lparr>execution_result :=
               Some (Response (run_user_code C
                       (trace w @ [Execute_Step (get_step (session w) r)]) src)),
             status := ''completed'', perception := Some p\<rparr>)"
    "session_memory w1 =
       (if local_goal_achieved p then session_memory w
        else let m1 = session_memory w @
                   [\<lparr>me_file = None, me_query = description (get_step (session w) r),
                     me_result_requirement = ''Tool failed'',
                     me_solution_summary =
                       take 300 (er_str (run_user_code C
                          (trace w @ [Execute_Step (get_step (session w) r)]) src))\<rparr>]
             in if 3 < length m1 then tl m1 else m1)"
proof -
  have ne: "plan_versions (session w) \<noteq> []"
    using assms(2) by (rule valid_ref_nonempty)
  show ?thesis
    using assms(1) ne
    by (auto simp: execute_step_def Let_def run_perception_def set_step_set_step
        GLOBAL_PREVIOUS_FAILURE_STEPS_def latest_plan_text_set_step latest_plan_text_Inr
        split: if_splits option.splits sum.splits prod.splits intro!: that)
qed

lemma execute_step_CONCLUDE:
  assumes "valid_ref (session w) r"
    and "type (get_step (session w) r) = ''CONCLUDE''"
    and "PerceptionSnapshot
       (perception_run C (trace w @ [Execute_Step (get_step (session w) r)])
          \<lparr>raw_input = conclusion (get_step (session w) r),
           memory = session_memory w,
           current_plan = Some (plan_text (last (plan_versions (session w)))),
           snapshot_type = ''step_result''\<rparr>) = Inr p"
  shows "execute_step C r w =
     (Inr None,
      \<lparr>session =
         mark_complete
           (set_step (session w) r
              ((get_step (session w) r)
                 \<lparr>execution_result := map_option Text (conclusion (get_step (session w) r)),
                  status := ''completed'', perception := Some p\<rparr>))
           p (conclusion (get_step (session w) r)),
       session_memory = session_memory w,
       trace = trace w @
         [Execute_Step (get_step (session w) r),
          Run_Perception
            \<lparr>raw_input = conclusion (get_step (session w) r),
             memory = session_memory w,
             current_plan = Some (plan_text (last (plan_versions (session w)))),
             snapshot_type = ''step_result''\<rparr>]\<rparr>)"
proof -
  have ne: "plan_versions (session w) \<noteq> []"
    using assms(1) by (rule valid_ref_nonempty)
  show ?thesis
    using assms(2,3) ne
    by (simp add: execute_step_def Let_def run_perception_def set_step_set_step
        latest_plan_text_set_step latest_plan_text_Inr)
qed

lemma execute_step_NOP:
  assumes "type (get_step (session w) r) = ''NOP''"
  shows "execute_step C r w =
     (Inr None,
      \<lparr>session = set_step (session w) r
           ((get_step (session w) r)\<lparr>status := ''clarification_needed''\<rparr>),
       session_memory = session_memory w,
       trace = trace w @ [Execute_Step (get_step (session w) r)]\<rparr>)"
  using assms by (simp add: execute_step_def Let_def)

lemma execute_step_attaches:
  assumes "execute_step C r w = (Inr (Some sr), w1)" and "valid_ref (session w) r"
  shows "sr = r \<and> valid_ref (session w1) r \<and> type (get_step (session w1) r) = ''CODE'' \<and>
         status (get_step (session w1) r) = ''completed'' \<and>
         (\<exists>p. perception (get_step (session w1) r) = Some p)"
  using assms(1,2)
  by (elim execute_step_CODE) (simp_all add: get_set_step valid_ref_set_step)

lemma run_mid_session_decision_eq:
  assumes "plan_versions (session w) \<noteq> []"
  shows "run_mid_session_decision C w q x b =
     (Inr (decision_run C (trace w)
            (Mid_Session (strategy C) q (length (plan_versions (session w)))
               (plan_text (last (plan_versions (session w))))
               (filter (\<lambda>s. status s = ''completed'')
                  (concat (map steps (plan_versions (session w))))) x b)),
      w\<lparr>trace := trace w @
          [Run_Decision
            (Mid_Session (strategy C) q (length (plan_versions (session w)))
               (plan_text (last (plan_versions (session w))))
               (filter (\<lambda>s. status s = ''completed'')
                  (concat (map steps (plan_versions (session w))))) x b)]\<rparr>)"
  using assms by (simp add: run_mid_session_decision_def latest_plan_text_Inr Let_def)

lemma append_new_plan_version_eq:
  assumes "do_plan_text d = Some pt" and "create_step d = Inr nx"
  shows "append_new_plan_version s d =
     Inr (s\<lparr>plan_versions := plan_versions s @ [\<lparr>plan_text = pt, steps = [nx]\<rparr>]\<rparr>,
          Some (length (plan_versions s), 0))"
  using assms by (simp add: append_new_plan_version_def add_plan_version_def)

lemma decide_and_append_trace:
  assumes "plan_versions (session w) \<noteq> []"
    and "(case run_mid_session_decision C w q x b of
           (Inl e, w1) \<Rightarrow> (Inl e, w1)
         | (Inr d, w1) \<Rightarrow>
            (case append_new_plan_version (session w1) d of
               Inl e \<Rightarrow> (Inl e, w1)
             | Inr (s2, nxt) \<Rightarrow> (Inr nxt, w1\<lparr>session := s2\<rparr>))) = (res, w2)"
  shows "trace w2 = trace w @
          [Run_Decision
            (Mid_Session (strategy C) q (length (plan_versions (session w)))
               (plan_text (last (plan_versions (session w))))
               (filter (\<lambda>s. status s = ''completed'')
                  (concat (map steps (plan_versions (session w))))) x b)]"
  using assms(2) unfolding run_mid_session_decision_eq [OF assms(1)]
  by (auto split: sum.splits prod.splits)

subsection \<open>The last iteration of a run\<close>

lemma unique_split:
  "a \<notin> set xs \<Longrightarrow> a \<notin> set zs \<Longrightarrow> xs @ y # zs = us @ a # vs \<Longrightarrow>
   us = xs \<and> y = a \<and> vs = zs"
proof (induction xs arbitrary: us)
  case Nil
  then show ?case by (cases us) auto
next
  case (Cons x xs)
  then show ?case by (cases us) auto
qed

lemma execute_step_no_code:
  assumes "execute_step C r w = (res, w1)" and "type (get_step (session w) r) \<noteq> ''CODE''"
  shows "(\<forall>sr. res \<noteq> Inr (Some sr)) \<and>
         (\<exists>rest. trace w1 = trace w @ Execute_Step (get_step (session w) r) # rest \<and>
            (\<forall>ev \<in> set rest. \<not> is_Execute_Step ev \<and> \<not> is_Run_Decision ev \<and>
                \<not> is_Run_User_Code ev))"
  using assms
  by (auto simp: execute_step_def Let_def run_perception_def
      split: if_splits option.splits sum.splits prod.splits)

lemma last_iteration_terminal:
  assumes inv: "loop_inv r0 w0"
    and l: "loop C q (Suc 0) (Some r0) w0 = (oc, w')"
    and tr: "trace w' = tr1 @ Execute_Step x # tr2"
    and ty: "type x \<noteq> ''CODE''"
  shows "tr1 = trace w0 \<and> x = get_step (session w0) r0 \<and>
         (\<exists>res. execute_step C r0 w0 = (res, w') \<and> (\<forall>sr. res \<noteq> Inr (Some sr)) \<and>
                (res = Inr None \<longrightarrow> oc = Returned)) \<and>
         (\<forall>ev \<in> set tr2. \<not> is_Execute_Step ev \<and> \<not> is_Run_User_Code ev \<and> \<not> is_Run_Decision ev)"
proof -
  have old: "Execute_Step x \<notin> set (trace w0)"
    using inv ty by (auto simp: loop_inv_def)
  have stop: ?thesis if ex: "execute_step C r0 w0 = (res, w')"
    and res: "\<forall>sr. res \<noteq> Inr (Some sr)" and oc: "res = Inr None \<longrightarrow> oc = Returned" for res
  proof -
    from execute_step_trace [OF ex] obtain rest where
      t: "trace w' = trace w0 @ Execute_Step (get_step (session w0) r0) # rest"
      and r: "\<forall>ev \<in> set rest. \<not> is_Execute_Step ev \<and> \<not> is_Run_Decision ev \<and> \<not> is_Search_Memory ev"
      by blast
    have "Execute_Step x \<notin> set rest"
      using r by auto
    from unique_split [OF old this t [unfolded tr, symmetric]]
    have u: "tr1 = trace w0" "get_step (session w0) r0 = x" "tr2 = rest"
      by simp_all
    from execute_step_no_code [OF ex] u(2) ty obtain rest' where
      "trace w' = trace w0 @ Execute_Step (get_step (session w0) r0) # rest'"
      and "\<forall>ev \<in> set rest'. \<not> is_Run_User_Code ev"
      by blast
    with t have "\<forall>ev \<in> set rest. \<not> is_Run_User_Code ev"
      by simp
    with u r ex res oc show ?thesis by auto
  qed
  have cont: False if ex: "execute_step C r0 w0 = (Inr (Some sr), w1)"
    and ev: "evaluate_step C sr w1 q = (res2, w')" for sr w1 res2
  proof -
    from execute_step_trace [OF ex] obtain rest where
      t: "trace w1 = trace w0 @ Execute_Step (get_step (session w0) r0) # rest"
      and r: "\<forall>ev \<in> set rest. \<not> is_Execute_Step ev"
      by blast
    from evaluate_step_trace [OF ev] obtain rest2 where
      t2: "trace w' = trace w1 @ rest2" and r2: "\<forall>ev \<in> set rest2. is_Run_Decision ev"
      by blast
    have "type (get_step (session w0) r0) = ''CODE''"
      using execute_step_continue [OF ex] by simp
    moreover have "Execute_Step x \<in> set (trace w')"
      using tr by simp
    ultimately show False
      using old t t2 r r2 ty by auto
  qed
  from one_iteration [OF l] show ?thesis
    using stop cont by (elim disjE exE conjE) auto
qed


lemma steps_last_set_step:
  assumes "plan_versions s \<noteq> []" and "length (steps (last (plan_versions s))) = 1"
  shows "steps (last (plan_versions (set_step s (length (plan_versions s) - 1, 0) x))) = [x]"
proof -
  obtain y where y: "steps (plan_versions s ! (length (plan_versions s) - 1)) = [y]"
    using assms by (cases "steps (last (plan_versions s))") (auto simp: last_conv_nth)
  show ?thesis
    using assms(1) y by (simp add: set_step_def last_list_update)
qed

lemma run_exec_cases:
  assumes "run C fuel q = (oc, w)"
  obtains (before_loop) "session_memory w = []"
      and "\<forall>ev \<in> set (trace w). \<not> is_Execute_Step ev \<and>
             (\<forall>i. ev = Run_Perception i \<longrightarrow> snapshot_type i = ''user_query'')"
  | (out_of_fuel) r0 where "loop_inv r0 w" and "oc = OutOfFuel"
  | (last_iteration) r0 w0 where "loop_inv r0 w0" and "oc \<noteq> OutOfFuel"
      and "loop C q (Suc 0) (Some r0) w0 = (oc, w)"
proof -
  from run_last_iteration [OF assms]
  have "(session_memory w = [] \<and>
         (\<forall>ev \<in> set (trace w). \<not> is_Execute_Step ev \<and>
             (\<forall>i. ev = Run_Perception i \<longrightarrow> snapshot_type i = ''user_query'')))
      \<or> (\<exists>r0 w0. loop_inv r0 w0 \<and>
              (oc = OutOfFuel \<and> w = w0 \<or>
               oc \<noteq> OutOfFuel \<and> loop C q (Suc 0) (Some r0) w0 = (oc, w)))"
    by (elim disjE) (simp_all add: opening_trace)
  then show ?thesis
    using that by blast
qed

lemma last_iteration_memory:
  assumes inv: "loop_inv r0 w0" and l: "loop C q (Suc 0) (Some r0) w0 = (oc, w')"
  shows "length (session_memory w') \<le> 3 \<and>
         (\<forall>i. Run_Perception i \<in> set (trace w') \<and> snapshot_type i = ''step_result''
              \<longrightarrow> length (memory i) \<le> 3)"
proof -
  have m0: "length (session_memory w0) \<le> 3"
    and p0: "\<forall>i. Run_Perception i \<in> set (trace w0) \<and> snapshot_type i = ''step_result''
              \<longrightarrow> length (memory i) \<le> 3"
    using inv unfolding loop_inv_def by blast+
  have ex: "length (session_memory w1) \<le> 3 \<and>
         (\<forall>i. Run_Perception i \<in> set (trace w1) \<and> snapshot_type i = ''step_result''
              \<longrightarrow> length (memory i) \<le> 3)"
    if e: "execute_step C r0 w0 = (res, w1)" for res w1
  proof -
    from execute_step_trace [OF e] obtain rest where
      t: "trace w1 = trace w0 @ Execute_Step (get_step (session w0) r0) # rest"
      and r: "\<forall>i. Run_Perception i \<in> set rest \<longrightarrow> memory i = session_memory w0"
      by blast
    show ?thesis
      using execute_step_memory_bound [OF m0 e] t r p0 m0 by auto
  qed
  have ev: "length (session_memory w2) \<le> 3 \<and>
         (\<forall>i. Run_Perception i \<in> set (trace w2) \<and> snapshot_type i = ''step_result''
              \<longrightarrow> length (memory i) \<le> 3)"
    if e: "execute_step C r0 w0 = (res, w1)" and v: "evaluate_step C sr w1 q = (res2, w2)"
    for res w1 sr res2 w2
  proof -
    from evaluate_step_trace [OF v] obtain rest2 where
      "session_memory w2 = session_memory w1" "trace w2 = trace w1 @ rest2"
      "\<forall>ev \<in> set rest2. is_Run_Decision ev"
      by blast
    with ex [OF e] show ?thesis by auto
  qed
  from one_iteration [OF l] show ?thesis
    using ex ev by (elim disjE exE conjE) blast+
qed

subsection \<open>The claims\<close>

text \<open>
  C1 (fast-path law). If the opening perception call, run over the query and the memory
  results, returns a snapshot whose \<open>original_goal_achieved\<close> is true, then \<open>run\<close>
  returns, whatever the fuel; the memory search and that perception call are the only
  collaborator calls made, so decision and execution are never invoked; and the state of
  the returned session has \<open>original_goal_achieved\<close> true, with the final answer, the
  confidence and the reasoning note taken from the perception output.
\<close>

theorem fast_path_law:
  assumes "fst (opening_perception C q) = d"
    and "PerceptionSnapshot d = Inr p"
    and "original_goal_achieved p"
  shows "fst (run C fuel q) = Returned \<and>
         trace (snd (run C fuel q)) =
           [Search_Memory q,
            Run_Perception \<lparr>raw_input = Some q,
              memory = memory_search C [] q @ memory_search C [] q,
              current_plan = None, snapshot_type = ''user_query''\<rparr>] \<and>
         (\<forall>ev \<in> set (trace (snd (run C fuel q))).
            \<not> is_Run_Decision ev \<and> \<not> is_Run_User_Code ev \<and> \<not> is_Execute_Step ev) \<and>
         state (session (snd (run C fuel q))) =
           \<lparr>st_original_goal_achieved = True, final_answer = Some (solution_summary p),
            st_confidence = Some (confidence p), reasoning_note = Some (reasoning p),
            st_solution_summary = Some (solution_summary p)\<rparr>"
proof -
  obtain tr where op: "opening_perception C q = (d, tr)"
    using assms(1) by (cases "opening_perception C q") simp
  have tr: "tr = [Search_Memory q,
            Run_Perception \<lparr>raw_input = Some q,
              memory = memory_search C [] q @ memory_search C [] q,
              current_plan = None, snapshot_type = ''user_query''\<rparr>]"
    using op by (simp add: opening_perception_def search_memory_def run_perception_def Let_def)
  note f = PerceptionSnapshot_Inr [OF assms(2)]
  have "run C fuel q =
      (Returned, \<lparr>session = handle_perception_completion
                     (add_perception (AgentSession (new_session_id C) q) p) d,
                 session_memory = [], trace = tr\<rparr>)"
    using op assms(2,3) f by (simp add: run_unfold)
  then show ?thesis
    using f by (simp add: tr handle_perception_completion_def add_perception_def AgentSession_def)
qed

theorem fast_path_law_witness:
  "fst (opening_perception (demo []) ''done'') = judgement True True ''done'' \<and>
   PerceptionSnapshot (judgement True True ''done'') =
     Inr \<lparr>original_goal_achieved = True, local_goal_achieved = True, confidence = 9 / 10,
          reasoning = ''judged'', solution_summary = ''done''\<rparr> \<and>
   fst (run (demo []) 0 ''done'') = Returned \<and>
   trace (snd (run (demo []) 0 ''done'')) =
     [Search_Memory ''done'',
      Run_Perception \<lparr>raw_input = Some ''done'', memory = [demo_record, demo_record],
        current_plan = None, snapshot_type = ''user_query''\<rparr>] \<and>
   final_answer (state (session (snd (run (demo []) 0 ''done'')))) = Some ''done''"
proof -
  have h1: "fst (opening_perception (demo []) ''done'') = judgement True True ''done''"
    by (simp add: opening_perception_def search_memory_def run_perception_def demo_def
        demo_perception_def)
  have h2: "PerceptionSnapshot (judgement True True ''done'') =
     Inr \<lparr>original_goal_achieved = True, local_goal_achieved = True, confidence = 9 / 10,
          reasoning = ''judged'', solution_summary = ''done''\<rparr>"
    by (simp add: PerceptionSnapshot_def judgement_def)
  show ?thesis
    using h1 h2 fast_path_law [OF h1 h2, of 0] by (simp add: demo_def)
qed

text \<open>
  C10 (implicit). In the initial phase \<open>run\<close> passes the memory-search result both as
  \<open>memory_results\<close> and as \<open>session_memory\<close> of \<open>run_perception\<close>, which concatenates
  them: whatever the run does afterwards, its first two events are the memory search and
  a perception call whose memory is the search result followed by itself, so every
  retrieved record occurs there twice as often as in the search result.
\<close>

theorem opening_memory_doubled:
  "trace (snd (run C fuel q)) ! 0 = Search_Memory q \<and>
   is_Run_Perception (trace (snd (run C fuel q)) ! 1) \<and>
   memory (the_input (trace (snd (run C fuel q)) ! 1)) =
     memory_search C [] q @ memory_search C [] q \<and>
   (\<forall>e \<in> set (memory_search C [] q).
      count_list (memory (the_input (trace (snd (run C fuel q)) ! 1))) e =
        2 * count_list (memory_search C [] q) e)"
proof -
  obtain tr where "trace (snd (run C fuel q)) = snd (opening_perception C q) @ tr"
    using run_trace_prefix by blast
  then show ?thesis by (simp add: opening_trace)
qed

theorem opening_memory_doubled_witness:
  "memory_search (demo []) [] ''hello'' = [demo_record] \<and>
   memory (the_input (trace (snd (run (demo []) 1 ''hello'')) ! 1)) = [demo_record, demo_record] \<and>
   count_list (memory (the_input (trace (snd (run (demo []) 1 ''hello'')) ! 1))) demo_record = 2"
proof -
  have h: "memory_search (demo []) [] ''hello'' = [demo_record]"
    by (simp add: demo_def)
  show ?thesis
    using h opening_memory_doubled [of "demo []" 1 "''hello''"] by simp
qed

text \<open>
  C3, as amended. When \<open>run\<close> returns, every plan version of the returned session holds a
  non-empty step list, and the session has at least one plan version exactly when the
  opening perception did not report the original goal achieved: on the fast path \<open>run\<close>
  returns before any decision is requested, with no plan version at all.
\<close>

theorem plan_versions_of_returned_session:
  assumes "run C fuel q = (Returned, w)"
  shows "(1 \<le> length (plan_versions (session w)) \<longleftrightarrow>
            pr_original_goal_achieved (fst (opening_perception C q)) \<noteq> Some True) \<and>
         (\<forall>pv \<in> set (plan_versions (session w)). steps pv \<noteq> [])"
  using run_last_iteration [OF assms]
proof (elim disjE)
  assume "pr_original_goal_achieved (fst (opening_perception C q)) \<noteq> Some True \<and>
     (\<exists>r0 w0. loop_inv r0 w0 \<and>
        (Returned = OutOfFuel \<and> w = w0 \<or>
         Returned \<noteq> OutOfFuel \<and> loop C q (Suc 0) (Some r0) w0 = (Returned, w)))"
  then obtain r0 w0 where n: "pr_original_goal_achieved (fst (opening_perception C q)) \<noteq> Some True"
    and i: "loop_inv r0 w0" and l: "loop C q (Suc 0) (Some r0) w0 = (Returned, w)"
    by auto
  have "plan_versions (session w) \<noteq> [] \<and>
         (\<forall>pv \<in> set (plan_versions (session w)). length (steps pv) = 1)"
    using last_iteration_one_step_each [OF i l] .
  then have "1 \<le> length (plan_versions (session w))"
    and "\<forall>pv \<in> set (plan_versions (session w)). steps pv \<noteq> []"
    by (auto simp: Suc_le_eq)
  with n show ?thesis by simp
qed auto

theorem plan_versions_of_returned_session_witness:
  "run (demo []) 1 ''hello'' = (Returned, at_loop [] 1) \<and>
   pr_original_goal_achieved (fst (opening_perception (demo []) ''hello'')) = Some False \<and>
   1 \<le> length (plan_versions (session (at_loop [] 1))) \<and>
   steps (hd (plan_versions (session (at_loop [] 1)))) \<noteq> []"
proof -
  have "fst (run (demo []) 1 ''hello'') = Returned"
    by code_simp
  then have h: "run (demo []) 1 ''hello'' = (Returned, at_loop [] 1)"
    unfolding at_loop_def by (metis prod.collapse)
  have o: "pr_original_goal_achieved (fst (opening_perception (demo []) ''hello'')) = Some False"
    by code_simp
  from plan_versions_of_returned_session [OF h] o
  have l: "1 \<le> length (plan_versions (session (at_loop [] 1)))"
    and a: "\<forall>pv \<in> set (plan_versions (session (at_loop [] 1))). steps pv \<noteq> []"
    by simp_all
  from l have "hd (plan_versions (session (at_loop [] 1)))
      \<in> set (plan_versions (session (at_loop [] 1)))"
    by (cases "plan_versions (session (at_loop [] 1))") simp_all
  with a have n: "steps (hd (plan_versions (session (at_loop [] 1)))) \<noteq> []"
    by blast
  show ?thesis
    by (intro conjI h o l n)
qed

text \<open>
  C3, as stated, fails on the fast path: with the query \<open>done\<close> the opening perception
  reports the original goal achieved, \<open>run\<close> returns, and the session has no plan version.
\<close>

theorem plan_versions_counterexample:
  "fst (run (demo []) 0 ''done'') = Returned \<and>
   \<not> 1 \<le> length (plan_versions (session (snd (run (demo []) 0 ''done''))))"
  by code_simp

text \<open>
  C4 (strict evaluation priority). After \<open>execute_step\<close> has executed a CODE step, the
  step carries a perception snapshot, and \<open>evaluate_step\<close> looks at it in this order: if
  \<open>original_goal_achieved\<close> holds, whatever \<open>local_goal_achieved\<close> says, the session is
  marked complete with that snapshot and no final answer of its own, no decision is
  requested, and the loop returns; otherwise, if \<open>local_goal_achieved\<close> holds, the loop
  advances (\<open>get_next_step\<close>); otherwise it replans (\<open>replan_after_failure\<close>).
\<close>

theorem evaluation_priority:
  assumes "valid_ref (session w) r" and "execute_step C r w = (Inr (Some sr), w1)"
  shows "\<exists>p. perception (get_step (session w1) sr) = Some p \<and>
     (original_goal_achieved p \<longrightarrow>
        evaluate_step C sr w1 q = (Inr None, w1\<lparr>session := mark_complete (session w1) p None\<rparr>) \<and>
        loop C q (Suc n) (Some r) w =
          (Returned, w1\<lparr>session := mark_complete (session w1) p None\<rparr>) \<and>
        st_original_goal_achieved (state (mark_complete (session w1) p None))) \<and>
     (\<not> original_goal_achieved p \<and> local_goal_achieved p \<longrightarrow>
        evaluate_step C sr w1 q = get_next_step C w1 q (get_step (session w1) sr)) \<and>
     (\<not> original_goal_achieved p \<and> \<not> local_goal_achieved p \<longrightarrow>
        evaluate_step C sr w1 q = replan_after_failure C w1 q (get_step (session w1) sr))"
proof -
  from execute_step_attaches [OF assms(2,1)] obtain p where
    sr: "sr = r" and p: "perception (get_step (session w1) r) = Some p"
    by blast
  have "evaluate_step C sr w1 q =
      (if original_goal_achieved p then
         (Inr None, w1\<lparr>session := mark_complete (session w1) p None\<rparr>)
       else if local_goal_achieved p then get_next_step C w1 q (get_step (session w1) sr)
       else replan_after_failure C w1 q (get_step (session w1) sr))"
    using p sr by (simp add: evaluate_step_def Let_def)
  then show ?thesis
    using p sr assms(2) by (simp add: mark_complete_def)
qed

theorem evaluation_priority_witness:
  "valid_ref (session (at_loop odd_script 0)) (0, 0) \<and>
   fst (execute_step (demo odd_script) (0, 0) (at_loop odd_script 0)) = Inr (Some (0, 0)) \<and>
   (\<exists>p. perception (get_step (session (executed odd_script 0)) (0, 0)) = Some p \<and>
        original_goal_achieved p \<and> \<not> local_goal_achieved p \<and>
        fst (loop (demo odd_script) ''hello'' (Suc 0) (Some (0, 0)) (at_loop odd_script 0))
          = Returned)"
proof -
  let ?C = "demo odd_script"
  let ?w1 = "executed odd_script 0"
  have v: "valid_ref (session (at_loop odd_script 0)) (0, 0)"
    by code_simp
  have f: "fst (execute_step ?C (0, 0) (at_loop odd_script 0)) = Inr (Some (0, 0))"
    by code_simp
  then have e: "execute_step ?C (0, 0) (at_loop odd_script 0) = (Inr (Some (0, 0)), ?w1)"
    unfolding executed_def by (metis prod.collapse)
  have o: "map_option original_goal_achieved (perception (get_step (session ?w1) (0, 0))) = Some True"
    by code_simp
  have l: "map_option local_goal_achieved (perception (get_step (session ?w1) (0, 0))) = Some False"
    by code_simp
  from evaluation_priority [OF v e, of "''hello''" 0] obtain p where
    p: "perception (get_step (session ?w1) (0, 0)) = Some p"
    and c: "original_goal_achieved p \<longrightarrow>
        loop ?C ''hello'' (Suc 0) (Some (0, 0)) (at_loop odd_script 0) =
          (Returned, ?w1\<lparr>session := mark_complete (session ?w1) p None\<rparr>)"
    by blast
  have "original_goal_achieved p" "\<not> local_goal_achieved p"
    using o l p by simp_all
  with c p v f show ?thesis by (simp del: loop.simps)
qed

text \<open>
  C5 (advance law). Let a CODE step have been executed, with a snapshot that reports the
  local goal achieved and the original goal not. If the step's index plus one is below
  the number of lines of the latest plan version, \<open>evaluate_step\<close> requests one
  mid-session decision whose request has \<open>step_failed = False\<close>; when the answer has a
  plan text and a well-formed step, it is appended as a new plan version behind the
  existing ones, which stay as they are, and the loop continues with the step of that
  version. Otherwise \<open>evaluate_step\<close> changes nothing and the loop returns.
\<close>

theorem advance_law:
  assumes "valid_ref (session w) r"
    and "execute_step C r w = (Inr (Some sr), w1)"
    and "perception (get_step (session w1) sr) = Some p"
    and "\<not> original_goal_achieved p" and "local_goal_achieved p"
    and "x = get_step (session w1) sr"
    and "pvs = plan_versions (session w1)"
    and "din = Mid_Session (strategy C) q (length pvs) (plan_text (last pvs))
                 (filter (\<lambda>s. status s = ''completed'') (concat (map steps pvs))) x False"
  shows "(index x + 1 < int (length (plan_text (last pvs))) \<longrightarrow>
           (\<exists>res w2. evaluate_step C sr w1 q = (res, w2) \<and>
                      trace w2 = trace w1 @ [Run_Decision din]) \<and>
           (\<forall>pt nx. do_plan_text (decision_run C (trace w1) din) = Some pt \<and>
                     create_step (decision_run C (trace w1) din) = Inr nx \<longrightarrow>
              evaluate_step C sr w1 q =
                (Inr (Some (length pvs, 0)),
                 w1\<lparr>session := (session w1)\<lparr>plan_versions :=
                                   pvs @ [\<lparr>plan_text = pt, steps = [nx]\<rparr>]\<rparr>,
                    trace := trace w1 @ [Run_Decision din]\<rparr>) \<and>
              loop C q (Suc n) (Some r) w =
                loop C q n (Some (length pvs, 0))
                  (w1\<lparr>session := (session w1)\<lparr>plan_versions :=
                                   pvs @ [\<lparr>plan_text = pt, steps = [nx]\<rparr>]\<rparr>,
                      trace := trace w1 @ [Run_Decision din]\<rparr>))) \<and>
         (\<not> index x + 1 < int (length (plan_text (last pvs))) \<longrightarrow>
            evaluate_step C sr w1 q = (Inr None, w1) \<and>
            loop C q (Suc n) (Some r) w = (Returned, w1))"
proof -
  from execute_step_attaches [OF assms(2,1)] have v1: "valid_ref (session w1) r" and sr: "sr = r"
    by simp_all
  have ne: "plan_versions (session w1) \<noteq> []"
    using v1 by (rule valid_ref_nonempty)
  have ev: "evaluate_step C sr w1 q = get_next_step C w1 q x"
    using assms(3,4,5,6) by (simp add: evaluate_step_def Let_def)
  show ?thesis
  proof (cases "index x + 1 < int (length (plan_text (last pvs)))")
    case False
    then have "evaluate_step C sr w1 q = (Inr None, w1)"
      using ev ne assms(7) by (simp add: get_next_step_def latest_plan_text_Inr Let_def)
    then show ?thesis
      using False assms(2) by simp
  next
    case True
    have g: "get_next_step C w1 q x =
        (case run_mid_session_decision C w1 q x False of
           (Inl e, w1) \<Rightarrow> (Inl e, w1)
         | (Inr d, w1) \<Rightarrow>
            (case append_new_plan_version (session w1) d of
               Inl e \<Rightarrow> (Inl e, w1)
             | Inr (s2, nxt) \<Rightarrow> (Inr nxt, w1\<lparr>session := s2\<rparr>)))"
      using True ne assms(7) by (simp add: get_next_step_def latest_plan_text_Inr Let_def)
    obtain res w2 where e2: "evaluate_step C sr w1 q = (res, w2)"
      by (cases "evaluate_step C sr w1 q")
    have a: "trace w2 = trace w1 @ [Run_Decision din]"
      using decide_and_append_trace [OF ne, of C q x False res w2] e2 ev g assms(7,8) by simp
    have b: "evaluate_step C sr w1 q =
                (Inr (Some (length pvs, 0)),
                 w1\<lparr>session := (session w1)\<lparr>plan_versions :=
                                   pvs @ [\<lparr>plan_text = pt, steps = [nx]\<rparr>]\<rparr>,
                    trace := trace w1 @ [Run_Decision din]\<rparr>)"
      if "do_plan_text (decision_run C (trace w1) din) = Some pt"
        and "create_step (decision_run C (trace w1) din) = Inr nx" for pt nx
      using that ev g assms(7,8)
      by (simp add: run_mid_session_decision_eq [OF ne] append_new_plan_version_eq)
    show ?thesis
      using True e2 a b assms(2) by simp
  qed
qed


theorem advance_law_witness:
  "valid_ref (session (at_loop advance_script 0)) (0, 0) \<and>
   fst (execute_step (demo advance_script) (0, 0) (at_loop advance_script 0)) = Inr (Some (0, 0)) \<and>
   fst (evaluate_step (demo advance_script) (0, 0) (executed advance_script 0) ''hello'') =
     Inr (Some (1, 0)) \<and>
   plan_versions (session (snd (evaluate_step (demo advance_script) (0, 0)
       (executed advance_script 0) ''hello''))) =
     plan_versions (session (executed advance_script 0)) @
       [\<lparr>plan_text = [''a'', ''b''],
         steps = [Step 1 ''conclude'' ''CONCLUDE'' None (Some ''fine'')]\<rparr>] \<and>
   valid_ref (session (at_loop single_line_script 0)) (0, 0) \<and>
   fst (execute_step (demo single_line_script) (0, 0) (at_loop single_line_script 0)) =
     Inr (Some (0, 0)) \<and>
   loop (demo single_line_script) ''hello'' (Suc 0) (Some (0, 0)) (at_loop single_line_script 0) =
     (Returned, executed single_line_script 0)"
proof -
  let ?P = "\<lparr>original_goal_achieved = False, local_goal_achieved = True, confidence = 9 / 10,
            reasoning = ''judged'', solution_summary = ''ok''\<rparr>"
  have n1: "\<not> original_goal_achieved ?P" and n2: "local_goal_achieved ?P"
    by simp_all
  let ?C = "demo advance_script"
  let ?w1 = "executed advance_script 0"
  have v: "valid_ref (session (at_loop advance_script 0)) (0, 0)"
    by code_simp
  have f: "fst (execute_step ?C (0, 0) (at_loop advance_script 0)) = Inr (Some (0, 0))"
    by code_simp
  then have e: "execute_step ?C (0, 0) (at_loop advance_script 0) = (Inr (Some (0, 0)), ?w1)"
    unfolding executed_def by (metis prod.collapse)
  have p: "perception (get_step (session ?w1) (0, 0)) = Some ?P"
    by code_simp
  note th = advance_law [OF v e p n1 n2 refl refl refl, of "''hello''" 0]
  have i: "index (get_step (session ?w1) (0, 0)) + 1
             < int (length (plan_text (last (plan_versions (session ?w1)))))"
    by code_simp
  have d1: "do_plan_text (decision_run ?C (trace ?w1)
      (Mid_Session (strategy ?C) ''hello'' (length (plan_versions (session ?w1)))
         (plan_text (last (plan_versions (session ?w1))))
         (filter (\<lambda>s. status s = ''completed'') (concat (map steps (plan_versions (session ?w1)))))
         (get_step (session ?w1) (0, 0)) False)) = Some [''a'', ''b'']"
    by code_simp
  have d2: "create_step (decision_run ?C (trace ?w1)
      (Mid_Session (strategy ?C) ''hello'' (length (plan_versions (session ?w1)))
         (plan_text (last (plan_versions (session ?w1))))
         (filter (\<lambda>s. status s = ''completed'') (concat (map steps (plan_versions (session ?w1)))))
         (get_step (session ?w1) (0, 0)) False)) =
        Inr (Step 1 ''conclude'' ''CONCLUDE'' None (Some ''fine''))"
    by code_simp
  have len: "length (plan_versions (session ?w1)) = 1"
    by code_simp
  have a: "fst (evaluate_step ?C (0, 0) ?w1 ''hello'') = Inr (Some (1, 0)) \<and>
     plan_versions (session (snd (evaluate_step ?C (0, 0) ?w1 ''hello''))) =
     plan_versions (session ?w1) @
       [\<lparr>plan_text = [''a'', ''b''],
         steps = [Step 1 ''conclude'' ''CONCLUDE'' None (Some ''fine'')]\<rparr>]"
    using th i d1 d2 len by simp
  let ?C' = "demo single_line_script"
  let ?w1' = "executed single_line_script 0"
  have v': "valid_ref (session (at_loop single_line_script 0)) (0, 0)"
    by code_simp
  have f': "fst (execute_step ?C' (0, 0) (at_loop single_line_script 0)) = Inr (Some (0, 0))"
    by code_simp
  then have e': "execute_step ?C' (0, 0) (at_loop single_line_script 0) = (Inr (Some (0, 0)), ?w1')"
    unfolding executed_def by (metis prod.collapse)
  have p': "perception (get_step (session ?w1') (0, 0)) = Some ?P"
    by code_simp
  note th' = advance_law [OF v' e' p' n1 n2 refl refl refl, of "''hello''" 0]
  have i': "\<not> index (get_step (session ?w1') (0, 0)) + 1
             < int (length (plan_text (last (plan_versions (session ?w1')))))"
    by code_simp
  have b: "loop ?C' ''hello'' (Suc 0) (Some (0, 0)) (at_loop single_line_script 0) =
     (Returned, ?w1')"
    using th' i' by blast
  show ?thesis
    using v f a v' f' b by blast
qed

text \<open>
  C6 (replan law). Let a CODE step have been executed, with a snapshot that reports
  neither goal achieved. Then \<open>execute_step\<close> has appended to the failure memory the record
  made of the step's description, the text \<open>Tool failed\<close> and the first 300 characters
  of the text of the execution result (dropping the oldest entry when that makes more than
  three), and \<open>evaluate_step\<close> requests one mid-session decision, whose request has
  \<open>step_failed = True\<close> and lists as completed steps exactly the steps of all plan versions
  whose status is \<open>completed\<close>, the failed step among them; when the answer has a plan
  text and a well-formed step, the loop continues with that step in a new plan version.
\<close>

theorem replan_law:
  assumes "valid_ref (session w) r"
    and "execute_step C r w = (Inr (Some sr), w1)"
    and "perception (get_step (session w1) sr) = Some p"
    and "\<not> original_goal_achieved p" and "\<not> local_goal_achieved p"
    and "x = get_step (session w1) sr"
    and "pvs = plan_versions (session w1)"
    and "din = Mid_Session (strategy C) q (length pvs) (plan_text (last pvs))
                 (filter (\<lambda>s. status s = ''completed'') (concat (map steps pvs))) x True"
  shows "(\<exists>resp f. execution_result x = Some (Response resp) \<and>
            f = \<lparr>me_file = None, me_query = description (get_step (session w) r),
                 me_result_requirement = ''Tool failed'',
                 me_solution_summary = take 300 (er_str resp)\<rparr> \<and>
            session_memory w1 =
              (if 3 < length (session_memory w @ [f]) then tl (session_memory w @ [f])
               else session_memory w @ [f]) \<and>
            last (session_memory w1) = f) \<and>
         (\<exists>res w2. evaluate_step C sr w1 q = (res, w2) \<and>
                    trace w2 = trace w1 @ [Run_Decision din]) \<and>
         (\<forall>s. s \<in> set (completed_steps din) \<longleftrightarrow>
               (\<exists>pv \<in> set pvs. s \<in> set (steps pv) \<and> status s = ''completed'')) \<and>
         x \<in> set (completed_steps din) \<and>
         (\<forall>pt nx. do_plan_text (decision_run C (trace w1) din) = Some pt \<and>
                   create_step (decision_run C (trace w1) din) = Inr nx \<longrightarrow>
            evaluate_step C sr w1 q =
              (Inr (Some (length pvs, 0)),
               w1\<lparr>session := (session w1)\<lparr>plan_versions :=
                                 pvs @ [\<lparr>plan_text = pt, steps = [nx]\<rparr>]\<rparr>,
                  trace := trace w1 @ [Run_Decision din]\<rparr>) \<and>
            loop C q (Suc n) (Some r) w =
              loop C q n (Some (length pvs, 0))
                (w1\<lparr>session := (session w1)\<lparr>plan_versions :=
                                 pvs @ [\<lparr>plan_text = pt, steps = [nx]\<rparr>]\<rparr>,
                    trace := trace w1 @ [Run_Decision din]\<rparr>))"
proof -
  from execute_step_attaches [OF assms(2,1)] have v1: "valid_ref (session w1) r" and sr: "sr = r"
    and st: "status (get_step (session w1) r) = ''completed''"
    by simp_all
  have ne: "plan_versions (session w1) \<noteq> []"
    using v1 by (rule valid_ref_nonempty)
  have ev: "evaluate_step C sr w1 q = replan_after_failure C w1 q x"
    using assms(3,4,5,6) by (simp add: evaluate_step_def Let_def)
  have m: "\<exists>resp f. execution_result x = Some (Response resp) \<and>
            f = \<lparr>me_file = None, me_query = description (get_step (session w) r),
                 me_result_requirement = ''Tool failed'',
                 me_solution_summary = take 300 (er_str resp)\<rparr> \<and>
            session_memory w1 =
              (if 3 < length (session_memory w @ [f]) then tl (session_memory w @ [f])
               else session_memory w @ [f]) \<and>
            last (session_memory w1) = f"
  proof (rule execute_step_CODE [OF assms(2,1)])
    fix tc src p'
    let ?resp = "run_user_code C (trace w @ [Execute_Step (get_step (session w) r)]) src"
    let ?f = "\<lparr>me_file = None, me_query = description (get_step (session w) r),
                 me_result_requirement = ''Tool failed'',
                 me_solution_summary = take 300 (er_str ?resp)\<rparr>"
    assume s1: "session w1 =
       set_step (session w) r
         ((get_step (session w) r)
            \<lparr>execution_result := Some (Response ?resp),
             status := ''completed'', perception := Some p'\<rparr>)"
      and m1: "session_memory w1 =
       (if local_goal_achieved p' then session_memory w
        else let m1 = session_memory w @ [?f]
             in if 3 < length m1 then tl m1 else m1)"
    have x: "x = (get_step (session w) r)
            \<lparr>execution_result := Some (Response ?resp),
             status := ''completed'', perception := Some p'\<rparr>"
      using assms(6) sr s1 assms(1) by (simp add: get_set_step)
    then have "p' = p" using assms(3,6) by simp
    then have mm: "session_memory w1 =
              (if 3 < length (session_memory w @ [?f]) then tl (session_memory w @ [?f])
               else session_memory w @ [?f])"
      using m1 assms(5) by (simp add: Let_def)
    have "last (session_memory w1) = ?f"
      unfolding mm by (cases "session_memory w") (simp_all add: last_tl)
    with mm x show ?thesis by auto
  qed
  have g: "replan_after_failure C w1 q x =
        (case run_mid_session_decision C w1 q x True of
           (Inl e, w1) \<Rightarrow> (Inl e, w1)
         | (Inr d, w1) \<Rightarrow>
            (case append_new_plan_version (session w1) d of
               Inl e \<Rightarrow> (Inl e, w1)
             | Inr (s2, nxt) \<Rightarrow> (Inr nxt, w1\<lparr>session := s2\<rparr>)))"
    by (simp add: replan_after_failure_def)
  obtain res w2 where e2: "evaluate_step C sr w1 q = (res, w2)"
    by (cases "evaluate_step C sr w1 q")
  have a: "trace w2 = trace w1 @ [Run_Decision din]"
    using decide_and_append_trace [OF ne, of C q x True res w2] e2 ev g assms(7,8) by simp
  have b: "evaluate_step C sr w1 q =
              (Inr (Some (length pvs, 0)),
               w1\<lparr>session := (session w1)\<lparr>plan_versions :=
                                 pvs @ [\<lparr>plan_text = pt, steps = [nx]\<rparr>]\<rparr>,
                  trace := trace w1 @ [Run_Decision din]\<rparr>)"
    if "do_plan_text (decision_run C (trace w1) din) = Some pt"
      and "create_step (decision_run C (trace w1) din) = Inr nx" for pt nx
    using that ev g assms(7,8)
    by (simp add: run_mid_session_decision_eq [OF ne] append_new_plan_version_eq)
  have c: "\<forall>s. s \<in> set (completed_steps din) \<longleftrightarrow>
               (\<exists>pv \<in> set pvs. s \<in> set (steps pv) \<and> status s = ''completed'')"
    using assms(8) by auto
  have "x \<in> set (steps (plan_versions (session w1) ! fst r))"
    using v1 assms(6) sr by (auto simp: valid_ref_def get_step_def)
  moreover have "plan_versions (session w1) ! fst r \<in> set pvs"
    using v1 assms(7) by (simp add: valid_ref_def)
  ultimately have d: "x \<in> set (completed_steps din)"
    using c st assms(6) sr by blast
  have l: "loop C q (Suc n) (Some r) w =
              loop C q n (Some (length pvs, 0))
                (w1\<lparr>session := (session w1)\<lparr>plan_versions :=
                                 pvs @ [\<lparr>plan_text = pt, steps = [nx]\<rparr>]\<rparr>,
                    trace := trace w1 @ [Run_Decision din]\<rparr>)"
    if "do_plan_text (decision_run C (trace w1) din) = Some pt"
      and "create_step (decision_run C (trace w1) din) = Inr nx" for pt nx
    using b [OF that] assms(2) by simp
  show ?thesis
    using m e2 a b c d l by blast
qed


theorem replan_law_witness:
  "valid_ref (session (at_loop long_script 0)) (0, 0) \<and>
   fst (execute_step (demo long_script) (0, 0) (at_loop long_script 0)) = Inr (Some (0, 0)) \<and>
   map_option local_goal_achieved
     (perception (get_step (session (executed long_script 0)) (0, 0))) = Some False \<and>
   session_memory (at_loop long_script 0) = [] \<and>
   session_memory (executed long_script 0) =
     [\<lparr>me_file = None, me_query = ''run '' @ replicate 400 CHR ''z'',
       me_result_requirement = ''Tool failed'',
       me_solution_summary = ''result: '' @ replicate 292 CHR ''z''\<rparr>] \<and>
   (\<exists>res w2 di. evaluate_step (demo long_script) (0, 0) (executed long_script 0) ''hello'' =
        (res, w2) \<and> last (trace w2) = Run_Decision di \<and> step_failed di \<and>
        map description (completed_steps di) = [''run '' @ replicate 400 CHR ''z''])"
proof -
  let ?P = "\<lparr>original_goal_achieved = False, local_goal_achieved = False, confidence = 9 / 10,
            reasoning = ''judged'', solution_summary = replicate 400 CHR ''z''\<rparr>"
  let ?R = "\<lparr>er_result = Some (replicate 400 CHR ''z''),
            er_str = ''result: '' @ replicate 400 CHR ''z''\<rparr>"
  have n1: "\<not> original_goal_achieved ?P" and n2: "\<not> local_goal_achieved ?P"
    by simp_all
  let ?C = "demo long_script"
  let ?w = "at_loop long_script 0"
  let ?w1 = "executed long_script 0"
  have v: "valid_ref (session ?w) (0, 0)"
    by code_simp
  have f: "fst (execute_step ?C (0, 0) ?w) = Inr (Some (0, 0))"
    by code_simp
  then have e: "execute_step ?C (0, 0) ?w = (Inr (Some (0, 0)), ?w1)"
    unfolding executed_def by (metis prod.collapse)
  have p: "perception (get_step (session ?w1) (0, 0)) = Some ?P"
    by code_simp
  have x: "execution_result (get_step (session ?w1) (0, 0)) = Some (Response ?R)"
    by code_simp
  have d: "description (get_step (session ?w) (0, 0)) = ''run '' @ replicate 400 CHR ''z''"
    by code_simp
  have m0: "session_memory ?w = []"
    by code_simp
  have cs: "map description (filter (\<lambda>s. status s = ''completed'')
              (concat (map steps (plan_versions (session ?w1))))) =
            [''run '' @ replicate 400 CHR ''z'']"
    by code_simp
  have t: "take 300 (''result: '' @ replicate 400 CHR ''z'') = ''result: '' @ replicate 292 CHR ''z''"
    by code_simp
  note th = replan_law [OF v e p n1 n2 refl refl refl, of "''hello''"]
  have a: "session_memory ?w1 =
     [\<lparr>me_file = None, me_query = ''run '' @ replicate 400 CHR ''z'',
       me_result_requirement = ''Tool failed'',
       me_solution_summary = ''result: '' @ replicate 292 CHR ''z''\<rparr>]"
    using th x d m0 t by auto
  have b: "\<exists>res w2 di. evaluate_step ?C (0, 0) ?w1 ''hello'' = (res, w2) \<and>
        last (trace w2) = Run_Decision di \<and> step_failed di \<and>
        map description (completed_steps di) = [''run '' @ replicate 400 CHR ''z'']"
  proof -
    let ?din = "Mid_Session (strategy ?C) ''hello'' (length (plan_versions (session ?w1)))
        (plan_text (last (plan_versions (session ?w1))))
        (filter (\<lambda>s. status s = ''completed'') (concat (map steps (plan_versions (session ?w1)))))
        (get_step (session ?w1) (0, 0)) True"
    from th obtain res w2 where ev: "evaluate_step ?C (0, 0) ?w1 ''hello'' = (res, w2)"
      and tr: "trace w2 = trace ?w1 @ [Run_Decision ?din]"
      by blast
    have l1: "last (trace w2) = Run_Decision ?din"
      using tr by simp
    have l2: "step_failed ?din"
      by simp
    have l3: "map description (completed_steps ?din) = [''run '' @ replicate 400 CHR ''z'']"
      using cs by simp
    show ?thesis
      by (rule exI [where x = res], rule exI [where x = w2], rule exI [where x = "?din"])
        (intro conjI ev l1 l2 l3)
  qed
  have l: "map_option local_goal_achieved (perception (get_step (session ?w1) (0, 0))) = Some False"
    using p by simp
  show ?thesis
    using v f l m0 a b by blast
qed

text \<open>
  C7 (CONCLUDE). Executing a CONCLUDE step, when perception answers with a complete
  snapshot: the conclusion is stored as the step's execution result, the status becomes
  \<open>completed\<close>, perception is run on the conclusion (with the failure memory and the latest
  plan text), the snapshot is attached, the session is marked complete with that snapshot
  and the conclusion as final answer, and \<open>execute_step\<close> returns \<open>None\<close>: the loop returns
  at once, and the only events of the iteration are the step and the perception call.
\<close>

theorem conclude_semantics:
  assumes "valid_ref (session w) r"
    and "x = get_step (session w) r"
    and "type x = ''CONCLUDE''"
    and "pin = \<lparr>raw_input = conclusion x, memory = session_memory w,
                 current_plan = Some (plan_text (last (plan_versions (session w)))),
                 snapshot_type = ''step_result''\<rparr>"
    and "PerceptionSnapshot (perception_run C (trace w @ [Execute_Step x]) pin) = Inr p"
    and "x' = x\<lparr>execution_result := map_option Text (conclusion x),
                 status := ''completed'', perception := Some p\<rparr>"
    and "w' = \<lparr>session = mark_complete (set_step (session w) r x') p (conclusion x),
                session_memory = session_memory w,
                trace = trace w @ [Execute_Step x, Run_Perception pin]\<rparr>"
  shows "execute_step C r w = (Inr None, w') \<and>
         loop C q (Suc n) (Some r) w = (Returned, w') \<and>
         get_step (session w') r = x' \<and>
         status (get_step (session w') r) = ''completed'' \<and>
         (\<forall>c. conclusion x = Some c \<longrightarrow>
            execution_result (get_step (session w') r) = Some (Text c) \<and>
            raw_input pin = Some c \<and>
            final_answer (state (session w')) = Some c)"
proof -
  have e: "execute_step C r w = (Inr None, w')"
    using execute_step_CONCLUDE [OF assms(1), of C p] assms(2-7) by simp
  have g: "get_step (session w') r = x'"
    using assms(1,7) by (simp add: get_step_def mark_complete_def get_set_step [unfolded get_step_def])
  have fa: "final_answer (state (session w')) = Some c" if "conclusion x = Some c" for c
    using that assms(7) by (simp add: mark_complete_def)
  show ?thesis
    using e g fa assms(4,6) by simp
qed

theorem conclude_semantics_witness:
  "valid_ref (session (at_loop advance_script 1)) (1, 0) \<and>
   type (get_step (session (at_loop advance_script 1)) (1, 0)) = ''CONCLUDE'' \<and>
   conclusion (get_step (session (at_loop advance_script 1)) (1, 0)) = Some ''fine'' \<and>
   fst (loop (demo advance_script) ''hello'' (Suc 0) (Some (1, 0)) (at_loop advance_script 1)) =
     Returned \<and>
   final_answer (state (session (snd
     (loop (demo advance_script) ''hello'' (Suc 0) (Some (1, 0)) (at_loop advance_script 1))))) =
     Some ''fine'' \<and>
   execution_result (get_step (session (snd
     (loop (demo advance_script) ''hello'' (Suc 0) (Some (1, 0)) (at_loop advance_script 1))))
     (1, 0)) = Some (Text ''fine'')"
proof -
  let ?C = "demo advance_script"
  let ?w = "at_loop advance_script 1"
  let ?x = "get_step (session ?w) (1, 0)"
  let ?pin = "\<lparr>raw_input = conclusion ?x, memory = session_memory ?w,
                 current_plan = Some (plan_text (last (plan_versions (session ?w)))),
                 snapshot_type = ''step_result''\<rparr>"
  let ?P = "\<lparr>original_goal_achieved = False, local_goal_achieved = False, confidence = 9 / 10,
            reasoning = ''judged'', solution_summary = ''fine''\<rparr>"
  have v: "valid_ref (session ?w) (1, 0)"
    by code_simp
  have t: "type ?x = ''CONCLUDE''"
    by code_simp
  have c: "conclusion ?x = Some ''fine''"
    by code_simp
  have p: "PerceptionSnapshot (perception_run ?C (trace ?w @ [Execute_Step ?x]) ?pin) = Inr ?P"
    by code_simp
  note th = conclude_semantics [OF v refl t refl p refl refl, of "''hello''" 0]
  show ?thesis
    using v t c th by (simp del: loop.simps)
qed

text \<open>
  C9 (terminal law). In the trace of any run, whatever its outcome and fuel, nothing is
  executed after a CONCLUDE or NOP step: the events that follow the entry of such a step
  into \<open>execute_step\<close> contain no further step, no call of the executor and no call of
  the decision component, and the loop has ended.
\<close>

theorem terminal_law:
  assumes "run C fuel q = (oc, w)"
    and "trace w = tr1 @ Execute_Step x # tr2"
    and "type x = ''CONCLUDE'' \<or> type x = ''NOP''"
  shows "oc \<noteq> OutOfFuel \<and>
         (\<forall>ev \<in> set tr2. \<not> is_Execute_Step ev \<and> \<not> is_Run_User_Code ev \<and> \<not> is_Run_Decision ev)"
proof -
  have ty: "type x \<noteq> ''CODE''"
    using assms(3) by auto
  have ex: "Execute_Step x \<in> set (trace w)"
    using assms(2) by simp
  from assms(1) show ?thesis
  proof (cases rule: run_exec_cases)
    case before_loop
    with ex show ?thesis by auto
  next
    case (out_of_fuel r0)
    with ex ty show ?thesis by (auto simp: loop_inv_def)
  next
    case (last_iteration r0 w0)
    from last_iteration_terminal [OF last_iteration(1,3) assms(2) ty] last_iteration(2)
    show ?thesis by blast
  qed
qed

theorem terminal_law_witness:
  "run (demo advance_script) 5 ''hello'' = (Returned, at_loop advance_script 5) \<and>
   trace (at_loop advance_script 5) =
     trace (at_loop advance_script 1) @
     Execute_Step (get_step (session (at_loop advance_script 1)) (1, 0)) #
     [last (trace (at_loop advance_script 5))] \<and>
   type (get_step (session (at_loop advance_script 1)) (1, 0)) = ''CONCLUDE'' \<and>
   is_Run_Perception (last (trace (at_loop advance_script 5)))"
proof -
  have "fst (run (demo advance_script) 5 ''hello'') = Returned"
    by code_simp
  then have h: "run (demo advance_script) 5 ''hello'' = (Returned, at_loop advance_script 5)"
    unfolding at_loop_def by (metis prod.collapse)
  have t: "trace (at_loop advance_script 5) =
     trace (at_loop advance_script 1) @
     Execute_Step (get_step (session (at_loop advance_script 1)) (1, 0)) #
     [last (trace (at_loop advance_script 5))]"
    by code_simp
  have c: "type (get_step (session (at_loop advance_script 1)) (1, 0)) = ''CONCLUDE''"
    by code_simp
  have p: "is_Run_Perception (last (trace (at_loop advance_script 5)))"
    by code_simp
  from terminal_law [OF h t] c
  have "\<not> is_Execute_Step (last (trace (at_loop advance_script 5)))"
    by simp
  with h t c p show ?thesis by blast
qed

text \<open>
  C8 (NOP). If a run executes a NOP step, then \<open>run\<close> returns; the step was untouched
  when it was executed (no execution result, no snapshot, status \<open>pending\<close>); the
  returned session holds it as the step of its latest plan version with the status
  \<open>clarification_needed\<close> and nothing else changed; the state of the session has no final
  answer; and the step is the last event of the run.
\<close>

theorem nop_semantics:
  assumes "run C fuel q = (oc, w)"
    and "Execute_Step x \<in> set (trace w)"
    and "type x = ''NOP''"
  shows "oc = Returned \<and>
         execution_result x = None \<and> perception x = None \<and> status x = ''pending'' \<and>
         plan_versions (session w) \<noteq> [] \<and>
         steps (last (plan_versions (session w))) = [x\<lparr>status := ''clarification_needed''\<rparr>] \<and>
         final_answer (state (session w)) = None \<and>
         last (trace w) = Execute_Step x"
proof -
  have ty: "type x \<noteq> ''CODE''"
    using assms(3) by auto
  from assms(2) obtain tr1 tr2 where tr: "trace w = tr1 @ Execute_Step x # tr2"
    by (auto simp: in_set_conv_decomp)
  from assms(1) show ?thesis
  proof (cases rule: run_exec_cases)
    case before_loop
    with assms(2) show ?thesis by auto
  next
    case (out_of_fuel r0)
    with assms(2) ty show ?thesis by (auto simp: loop_inv_def)
  next
    case (last_iteration r0 w0)
    note inv = last_iteration(1) and l = last_iteration(3)
    from last_iteration_terminal [OF inv l tr ty] obtain res where
      x: "x = get_step (session w0) r0"
      and ex: "execute_step C r0 w0 = (res, w)"
      and oc: "res = Inr None \<longrightarrow> oc = Returned"
      by blast
    have e: "execute_step C r0 w0 =
       (Inr None,
        \<lparr>session = set_step (session w0) r0 (x\<lparr>status := ''clarification_needed''\<rparr>),
         session_memory = session_memory w0,
         trace = trace w0 @ [Execute_Step x]\<rparr>)"
      using execute_step_NOP [of w0 r0 C] assms(3) x by simp
    have w: "w = \<lparr>session = set_step (session w0) r0 (x\<lparr>status := ''clarification_needed''\<rparr>),
         session_memory = session_memory w0,
         trace = trace w0 @ [Execute_Step x]\<rparr>" and "res = Inr None"
      using e ex by simp_all
    then have a: "oc = Returned" using oc by simp
    have f: "fresh x"
      using inv unfolding loop_inv_def x by blast
    have r0: "r0 = (length (plan_versions (session w0)) - 1, 0)"
      and ne: "plan_versions (session w0) \<noteq> []"
      and one: "\<forall>pv \<in> set (plan_versions (session w0)). length (steps pv) = 1"
      and fa: "final_answer (state (session w0)) = None"
      using inv unfolding loop_inv_def by blast+
    have s: "steps (last (plan_versions (session w))) = [x\<lparr>status := ''clarification_needed''\<rparr>]"
      using steps_last_set_step [OF ne, of "x\<lparr>status := ''clarification_needed''\<rparr>"] one ne r0 w
      by simp
    have n: "plan_versions (session w) \<noteq> []"
      using ne w by (simp add: plan_versions_nonempty_set_step)
    show ?thesis
      using a f s n fa w by (simp add: fresh_def state_set_step)
  qed
qed

theorem nop_semantics_witness:
  "run (demo one_failure_script) 5 ''hello'' = (Returned, at_loop one_failure_script 5) \<and>
   Execute_Step (Step 0 ''which file?'' ''NOP'' None None)
     \<in> set (trace (at_loop one_failure_script 5)) \<and>
   type (Step 0 ''which file?'' ''NOP'' None None) = ''NOP'' \<and>
   status (hd (steps (last (plan_versions (session (at_loop one_failure_script 5)))))) =
     ''clarification_needed'' \<and>
   final_answer (state (session (at_loop one_failure_script 5))) = None"
proof -
  have "fst (run (demo one_failure_script) 5 ''hello'') = Returned"
    by code_simp
  then have h: "run (demo one_failure_script) 5 ''hello'' = (Returned, at_loop one_failure_script 5)"
    unfolding at_loop_def by (metis prod.collapse)
  have m: "Execute_Step (Step 0 ''which file?'' ''NOP'' None None)
     \<in> set (trace (at_loop one_failure_script 5))"
    by code_simp
  have t: "type (Step 0 ''which file?'' ''NOP'' None None) = ''NOP''"
    by (simp add: Step_def)
  from nop_semantics [OF h m t]
  have s: "steps (last (plan_versions (session (at_loop one_failure_script 5)))) =
      [(Step 0 ''which file?'' ''NOP'' None None)\<lparr>status := ''clarification_needed''\<rparr>]"
    and fa: "final_answer (state (session (at_loop one_failure_script 5))) = None"
    by blast+
  have st: "status (hd (steps (last (plan_versions (session (at_loop one_failure_script 5)))))) =
     ''clarification_needed''"
    by (simp add: s)
  show ?thesis
    by (intro conjI h m t st fa)
qed

text \<open>
  C2 (bounded failure memory). In every run, whatever its outcome and however far it has
  got (any fuel), the failure memory \<open>session_memory\<close> holds at most 3 entries, and so did
  the memory handed to every perception call on a step result, which is the failure memory
  at the time of the call; \<open>evaluate_step\<close>, where the decision component is called, leaves
  the failure memory as \<open>execute_step\<close> left it. \<open>execute_step\<close> changes it only when the
  snapshot of the executed step does not report the local goal achieved: below 3 entries
  the failure record is appended; at 3 entries \<open>[a, b, c]\<close> the result is \<open>[b, c, f]\<close>,
  the oldest entry gone and the others in their order before the new record \<open>f\<close>.
\<close>

theorem failure_memory_bounded:
  "length (session_memory (snd (run C fuel q))) \<le> 3 \<and>
   (\<forall>i. Run_Perception i \<in> set (trace (snd (run C fuel q))) \<and>
        snapshot_type i = ''step_result'' \<longrightarrow> length (memory i) \<le> 3) \<and>
   (\<forall>sr wa res wb. evaluate_step C sr wa q = (res, wb) \<longrightarrow>
        session_memory wb = session_memory wa) \<and>
   (valid_ref (session w) r \<and> execute_step C r w = (Inr (Some r'), w1) \<and>
    perception (get_step (session w1) r') = Some p \<longrightarrow>
      (local_goal_achieved p \<longrightarrow> session_memory w1 = session_memory w) \<and>
      (\<not> local_goal_achieved p \<and> length (session_memory w) < 3 \<longrightarrow>
         (\<exists>f. session_memory w1 = session_memory w @ [f])) \<and>
      (\<not> local_goal_achieved p \<and> session_memory w = [a, b, c] \<longrightarrow>
         (\<exists>f. session_memory w1 = [b, c, f] \<and>
              me_query f = description (get_step (session w) r) \<and>
              me_result_requirement f = ''Tool failed'')))"
proof -
  obtain oc w' where run: "run C fuel q = (oc, w')"
    by (cases "run C fuel q")
  have A: "length (session_memory w') \<le> 3 \<and>
         (\<forall>i. Run_Perception i \<in> set (trace w') \<and> snapshot_type i = ''step_result''
              \<longrightarrow> length (memory i) \<le> 3)"
    using run
  proof (cases rule: run_exec_cases)
    case before_loop
    then show ?thesis by auto
  next
    case (out_of_fuel r0)
    then show ?thesis unfolding loop_inv_def by blast
  next
    case (last_iteration r0 w0)
    from last_iteration_memory [OF last_iteration(1,3)] show ?thesis .
  qed
  have B: "\<forall>sr wa res wb. evaluate_step C sr wa q = (res, wb) \<longrightarrow>
        session_memory wb = session_memory wa"
    using evaluate_step_trace by blast
  have D: "(local_goal_achieved p \<longrightarrow> session_memory w1 = session_memory w) \<and>
      (\<not> local_goal_achieved p \<and> length (session_memory w) < 3 \<longrightarrow>
         (\<exists>f. session_memory w1 = session_memory w @ [f])) \<and>
      (\<not> local_goal_achieved p \<and> session_memory w = [a, b, c] \<longrightarrow>
         (\<exists>f. session_memory w1 = [b, c, f] \<and>
              me_query f = description (get_step (session w) r) \<and>
              me_result_requirement f = ''Tool failed''))"
    if v: "valid_ref (session w) r" and e: "execute_step C r w = (Inr (Some r'), w1)"
      and p: "perception (get_step (session w1) r') = Some p"
  proof (rule execute_step_CODE [OF e v])
    fix tc src p'
    let ?resp = "run_user_code C (trace w @ [Execute_Step (get_step (session w) r)]) src"
    let ?f = "\<lparr>me_file = None, me_query = description (get_step (session w) r),
                 me_result_requirement = ''Tool failed'',
                 me_solution_summary = take 300 (er_str ?resp)\<rparr>"
    assume sr: "r' = r"
      and s1: "session w1 =
       set_step (session w) r
         ((get_step (session w) r)
            \<lparr>execution_result := Some (Response ?resp),
             status := ''completed'', perception := Some p'\<rparr>)"
      and m1: "session_memory w1 =
       (if local_goal_achieved p' then session_memory w
        else let m1 = session_memory w @ [?f]
             in if 3 < length m1 then tl m1 else m1)"
    have "p' = p"
      using p sr s1 v by (simp add: get_set_step)
    with m1 show ?thesis
      by (auto simp: Let_def)
  qed
  show ?thesis
    using A B D run by simp
qed

theorem failure_memory_bounded_witness:
  "valid_ref (session (at_loop failing_script 3)) (3, 0) \<and>
   fst (execute_step (demo failing_script) (3, 0) (at_loop failing_script 3)) = Inr (Some (3, 0)) \<and>
   map_option local_goal_achieved
     (perception (get_step (session (executed failing_script 3)) (3, 0))) = Some False \<and>
   map me_query (session_memory (at_loop failing_script 3)) =
     [''run bad1'', ''run bad2'', ''run bad3''] \<and>
   map me_query (session_memory (executed failing_script 3)) =
     [''run bad2'', ''run bad3'', ''run bad4''] \<and>
   length (session_memory (snd (run (demo failing_script) 4 ''hello''))) \<le> 3"
proof -
  let ?F = "\<lambda>n. \<lparr>me_file = None, me_query = ''run bad'' @ n,
                 me_result_requirement = ''Tool failed'',
                 me_solution_summary = ''result: bad'' @ n\<rparr>"
  let ?P = "\<lparr>original_goal_achieved = False, local_goal_achieved = False, confidence = 9 / 10,
            reasoning = ''judged'', solution_summary = ''bad4''\<rparr>"
  let ?C = "demo failing_script"
  let ?w = "at_loop failing_script 3"
  let ?w1 = "executed failing_script 3"
  have v: "valid_ref (session ?w) (3, 0)"
    by code_simp
  have f: "fst (execute_step ?C (3, 0) ?w) = Inr (Some (3, 0))"
    by code_simp
  then have e: "execute_step ?C (3, 0) ?w = (Inr (Some (3, 0)), ?w1)"
    unfolding executed_def by (metis prod.collapse)
  have p: "perception (get_step (session ?w1) (3, 0)) = Some ?P"
    by code_simp
  have m: "session_memory ?w = [?F ''1'', ?F ''2'', ?F ''3'']"
    by code_simp
  have d: "description (get_step (session ?w) (3, 0)) = ''run bad4''"
    by code_simp
  note th = failure_memory_bounded [of ?C 4 "''hello''" ?w "(3, 0)" "(3, 0)" ?w1 ?P
      "?F ''1''" "?F ''2''" "?F ''3''"]
  from th v e p m obtain g where
    g: "session_memory ?w1 = [?F ''2'', ?F ''3'', g]"
      "me_query g = description (get_step (session ?w) (3, 0))"
    by auto
  have a: "map me_query (session_memory ?w1) = [''run bad2'', ''run bad3'', ''run bad4'']"
    using g d by simp
  have b: "map me_query (session_memory ?w) = [''run bad1'', ''run bad2'', ''run bad3'']"
    using m by simp
  have c: "length (session_memory (snd (run ?C 4 ''hello''))) \<le> 3"
    using th by blast
  have l: "map_option local_goal_achieved (perception (get_step (session ?w1) (3, 0))) = Some False"
    using p by simp
  show ?thesis
    by (intro conjI v f l b a c)
qed

end
